theory Spec2Isabelle
  imports Main "HOL-Library.Word"
begin

section \<open>Strings\<close>

text \<open>
  Go strings are byte sequences; they are modelled as \<^typ>\<open>string\<close>. The library functions
  \<open>strings.ToLower\<close> and \<open>strings.TrimSpace\<close> are modelled on ASCII text: \<open>ToLower\<close> maps the
  letters \<open>A\<close>..\<open>Z\<close> to \<open>a\<close>..\<open>z\<close> and leaves every other byte alone, \<open>TrimSpace\<close> removes
  leading and trailing tab, line feed, vertical tab, form feed, carriage return and space.
  (On text with bytes beyond ASCII Go decodes UTF-8 and knows further letters and spaces;
  that part of the library is outside the model.)
\<close>

definition toLowerChar :: "char \<Rightarrow> char" where
  "toLowerChar c =
     (let n = (of_char c :: nat) in if 65 \<le> n \<and> n \<le> 90 then char_of (n + 32) else c)"

definition ToLower :: "string \<Rightarrow> string" where
  "ToLower s = map toLowerChar s"

definition isSpace :: "char \<Rightarrow> bool" where
  "isSpace c = (let n = (of_char c :: nat) in (9 \<le> n \<and> n \<le> 13) \<or> n = 32)"

definition TrimSpace :: "string \<Rightarrow> string" where
  "TrimSpace s = rev (dropWhile isSpace (rev (dropWhile isSpace s)))"

definition HasPrefix :: "string \<Rightarrow> string \<Rightarrow> bool" where
  "HasPrefix s p = (take (length p) s = p)"

definition TrimPrefix :: "string \<Rightarrow> string \<Rightarrow> string" where
  "TrimPrefix s p = (if HasPrefix s p then drop (length p) s else s)"

section \<open>Configuration\<close>

text \<open>
  \<open>config.CopilotKey\<close> and \<open>config.Config\<close> are declared outside the files at hand; the
  records carry the fields that \<open>copilot_headers.go\<close> reads. A nil pointer is \<open>None\<close>.
\<close>

record CopilotKey =
  HeaderProfile :: string
  CLIHeaderModels :: "string list"
  VSCodeChatHeaderModels :: "string list"
  ForceAgentCall :: bool
  AgentInitiatorPersist :: bool

record Config =
  CopilotKey :: "CopilotKey list"

section \<open>Header profile selection\<close>

type_synonym copilotHeaderProfile = string

definition copilotHeaderProfileCLI :: copilotHeaderProfile where
  "copilotHeaderProfileCLI = ''cli''"

definition copilotHeaderProfileVSCodeChat :: copilotHeaderProfile where
  "copilotHeaderProfileVSCodeChat = ''vscode-chat''"

definition defaultCopilotCLIHeaderModels :: "string list" where
  "defaultCopilotCLIHeaderModels =
     [''claude-sonnet-4.5'', ''claude-haiku-4.5'', ''claude-opus-4.5'', ''claude-sonnet-4'',
      ''gpt-5.1-codex-max'', ''gpt-5.1-codex'', ''gpt-5.2'', ''gpt-5.1'', ''gpt-5'',
      ''gpt-5.1-codex-mini'', ''gpt-5-mini'', ''gpt-4o'', ''gpt-4.1'', ''gemini-3-pro-preview'']"

definition normalizeModelID :: "string \<Rightarrow> string" where
  "normalizeModelID model = TrimSpace (ToLower model)"

text \<open>
  The two \<open>for _, v := range ...\<close> loops of \<open>copilotHeaderProfileForModel\<close>: they return at
  the first entry whose normalised text equals the de-aliased model.
\<close>

fun rangeMatches :: "string list \<Rightarrow> string \<Rightarrow> bool" where
  "rangeMatches [] m = False"
| "rangeMatches (v # vs) m = (if normalizeModelID v = m then True else rangeMatches vs m)"

definition copilotHeaderProfileForModel :: "CopilotKey option \<Rightarrow> string \<Rightarrow> copilotHeaderProfile" where
  "copilotHeaderProfileForModel entry model =
     (let m = normalizeModelID model in
      if m = [] then copilotHeaderProfileCLI
      else
        let mDeAliased = TrimPrefix m ''copilot-'' in
        if mDeAliased = [] then copilotHeaderProfileCLI
        else if mDeAliased = ''gpt-4'' then copilotHeaderProfileCLI
        else
          let fallthrough =
                (if mDeAliased \<in> set defaultCopilotCLIHeaderModels then copilotHeaderProfileCLI
                 else copilotHeaderProfileVSCodeChat)
          in
          case entry of
            None \<Rightarrow> fallthrough
          | Some e \<Rightarrow>
              if length (CLIHeaderModels e) > 0 \<and> rangeMatches (CLIHeaderModels e) mDeAliased
              then copilotHeaderProfileCLI
              else if length (VSCodeChatHeaderModels e) > 0
                      \<and> rangeMatches (VSCodeChatHeaderModels e) mDeAliased
              then copilotHeaderProfileVSCodeChat
              else
                let p = ToLower (TrimSpace (HeaderProfile e)) in
                if p = copilotHeaderProfileCLI then copilotHeaderProfileCLI
                else if p = copilotHeaderProfileVSCodeChat then copilotHeaderProfileVSCodeChat
                else fallthrough)"

section \<open>The executor and its configuration flags\<close>

text \<open>
  \<open>CopilotExecutor\<close> holds a pointer to the configuration and the map \<open>initiatorCount\<close>
  from prompt cache keys to Go \<open>int\<close> counters (64 bits, two's complement). Reading a key
  that the map does not hold gives 0, as in Go. The struct and its constructor are declared
  outside the files at hand; the map is taken as allocated, as the tests find it. The mutex
  brackets the read and the write of one call, so that calls act on the map one after
  another, in some order; a list of calls stands for that order.
\<close>

record CopilotExecutor =
  cfg :: "Config option"
  initiatorCount :: "string \<rightharpoonup> 64 word"

definition copilotKeyConfig :: "CopilotExecutor option \<Rightarrow> CopilotKey option" where
  "copilotKeyConfig e =
     (case e of
        None \<Rightarrow> None
      | Some ex \<Rightarrow>
          (case cfg ex of
             None \<Rightarrow> None
           | Some c \<Rightarrow> (case CopilotKey c of [] \<Rightarrow> None | k # _ \<Rightarrow> Some k)))"

text \<open>
  \<open>applyCopilotHeaderProfile\<close> selects the profile for the entry that \<open>copilotKeyConfig\<close>
  returns and then sets the fixed headers of that profile on the request. The model keeps
  the selected profile, which decides the headers.
\<close>

definition applyCopilotHeaderProfile :: "CopilotExecutor option \<Rightarrow> string \<Rightarrow> copilotHeaderProfile" where
  "applyCopilotHeaderProfile e model = copilotHeaderProfileForModel (copilotKeyConfig e) model"

fun rangeForceAgentCall :: "CopilotKey list \<Rightarrow> bool" where
  "rangeForceAgentCall [] = False"
| "rangeForceAgentCall (k # ks) = (if ForceAgentCall k then True else rangeForceAgentCall ks)"

fun rangeAgentInitiatorPersist :: "CopilotKey list \<Rightarrow> bool" where
  "rangeAgentInitiatorPersist [] = False"
| "rangeAgentInitiatorPersist (k # ks) =
     (if AgentInitiatorPersist k then True else rangeAgentInitiatorPersist ks)"

definition forceAgentCallEnabled :: "CopilotExecutor option \<Rightarrow> bool" where
  "forceAgentCallEnabled e =
     (case e of
        None \<Rightarrow> False
      | Some ex \<Rightarrow> (case cfg ex of None \<Rightarrow> False | Some c \<Rightarrow> rangeForceAgentCall (CopilotKey c)))"

definition agentInitiatorPersistEnabled :: "CopilotExecutor option \<Rightarrow> bool" where
  "agentInitiatorPersistEnabled e =
     (case e of
        None \<Rightarrow> False
      | Some ex \<Rightarrow>
          (case cfg ex of None \<Rightarrow> False | Some c \<Rightarrow> rangeAgentInitiatorPersist (CopilotKey c)))"

section \<open>JSON payloads as gjson reads them\<close>

text \<open>
  The payload arrives as bytes and is read through the library gjson. The model works on
  the parsed value. An object keeps its members in order, and a lookup takes the first
  member with the key, as gjson does. A \<open>gjson.Result\<close> is a \<open>json option\<close>, \<open>None\<close> for a
  path that does not exist. A number carries its text.
\<close>

datatype json =
    JNull
  | JBool bool
  | JNumber string
  | JString string
  | JArray "json list"
  | JObject "(string \<times> json) list"

fun joinWith :: "string \<Rightarrow> string list \<Rightarrow> string" where
  "joinWith sep [] = []"
| "joinWith sep [x] = x"
| "joinWith sep (x # y # ys) = x @ sep @ joinWith sep (y # ys)"

definition quoted :: "string \<Rightarrow> string" where
  "quoted s = CHR 0x22 # s @ [CHR 0x22]"

text \<open>
  \<open>Result.Raw\<close> of an array or object is its text in the payload. The model writes the text
  without insignificant white space and without escapes inside strings.
\<close>

fun jsonRaw :: "json \<Rightarrow> string" where
  "jsonRaw JNull = ''null''"
| "jsonRaw (JBool b) = (if b then ''true'' else ''false'')"
| "jsonRaw (JNumber n) = n"
| "jsonRaw (JString s) = quoted s"
| "jsonRaw (JArray xs) = ''['' @ joinWith '','' (map jsonRaw xs) @ '']''"
| "jsonRaw (JObject kvs) =
     ''{'' @ joinWith '','' (map (\<lambda>kv. quoted (fst kv) @ '':'' @ jsonRaw (snd kv)) kvs) @ ''}''"

definition gjsonGet :: "json option \<Rightarrow> string \<Rightarrow> json option" where
  "gjsonGet r key = (case r of Some (JObject kvs) \<Rightarrow> map_of kvs key | _ \<Rightarrow> None)"

definition gjsonExists :: "json option \<Rightarrow> bool" where
  "gjsonExists r = (r \<noteq> None)"

definition gjsonString :: "json option \<Rightarrow> string" where
  "gjsonString r =
     (case r of
        None \<Rightarrow> []
      | Some JNull \<Rightarrow> []
      | Some (JBool b) \<Rightarrow> (if b then ''true'' else ''false'')
      | Some (JNumber n) \<Rightarrow> n
      | Some (JString s) \<Rightarrow> s
      | Some v \<Rightarrow> jsonRaw v)"

definition gjsonIsArray :: "json option \<Rightarrow> bool" where
  "gjsonIsArray r = (case r of Some (JArray _) \<Rightarrow> True | _ \<Rightarrow> False)"

definition gjsonArray :: "json option \<Rightarrow> json list" where
  "gjsonArray r =
     (case r of None \<Rightarrow> [] | Some JNull \<Rightarrow> [] | Some (JArray xs) \<Rightarrow> xs | Some v \<Rightarrow> [v])"

section \<open>Inbound headers\<close>

text \<open>
  \<open>http.Header\<close> is a map from canonical header names to lists of values; \<open>Get\<close> makes its
  argument canonical and returns the first value, or the empty string. The canonical form
  is modelled for names made of letters, digits and hyphens, which the two names used here
  are: the first letter and every letter after a hyphen in upper case, the rest in lower
  case.
\<close>

type_synonym Header = "(string \<rightharpoonup> string list) option"

definition toUpperChar :: "char \<Rightarrow> char" where
  "toUpperChar c =
     (let n = (of_char c :: nat) in if 97 \<le> n \<and> n \<le> 122 then char_of (n - 32) else c)"

fun canonicalLoop :: "bool \<Rightarrow> string \<Rightarrow> string" where
  "canonicalLoop up [] = []"
| "canonicalLoop up (c # cs) =
     (if up then toUpperChar c else toLowerChar c) # canonicalLoop (c = CHR ''-'') cs"

definition CanonicalMIMEHeaderKey :: "string \<Rightarrow> string" where
  "CanonicalMIMEHeaderKey s = canonicalLoop True s"

definition headerGet :: "(string \<rightharpoonup> string list) \<Rightarrow> string \<Rightarrow> string" where
  "headerGet h key =
     (case h (CanonicalMIMEHeaderKey key) of None \<Rightarrow> [] | Some [] \<Rightarrow> [] | Some (v # _) \<Rightarrow> v)"

definition forceAgentCallFromHeaders :: "Header \<Rightarrow> bool" where
  "forceAgentCallFromHeaders headers =
     (case headers of
        None \<Rightarrow> False
      | Some h \<Rightarrow>
          let raw0 = TrimSpace (headerGet h ''force-copilot-agent'');
              raw = (if raw0 = [] then TrimSpace (headerGet h ''Force-Copilot-Agent'') else raw0)
          in if raw = [] then False
             else ToLower raw \<in> set [''1'', ''true'', ''t'', ''yes'', ''y'', ''on''])"

section \<open>Hint collection\<close>

definition responsesAPIAgentTypes :: "string list" where
  "responsesAPIAgentTypes =
     [''function_call'', ''function_call_output'', ''computer_call'', ''computer_call_output'',
      ''web_search_call'', ''file_search_call'', ''code_interpreter_call'', ''local_shell_call'',
      ''local_shell_call_output'', ''mcp_call'', ''mcp_list_tools'', ''mcp_approval_request'',
      ''mcp_approval_response'', ''image_generation_call'', ''reasoning'']"

definition itemRole :: "json \<Rightarrow> string" where
  "itemRole item = ToLower (TrimSpace (gjsonString (gjsonGet (Some item) ''role'')))"

definition isResponsesAPIAgentItem :: "json \<Rightarrow> bool" where
  "isResponsesAPIAgentItem item =
     (let role = itemRole item in
      if role = ''assistant'' \<or> role = ''tool'' then True
      else gjsonString (gjsonGet (Some item) ''type'') \<in> set responsesAPIAgentTypes)"

definition isResponsesAPIVisionContent :: "json \<Rightarrow> bool" where
  "isResponsesAPIVisionContent part = (gjsonString (gjsonGet (Some part) ''type'') = ''input_image'')"

record copilotHeaderHints =
  hasVision :: bool
  userFromPayload :: bool
  lastUserFromPayload :: bool
  agentFromPayload :: bool
  forceAgentFromHeaders :: bool
  promptCacheKey :: string

definition promptCacheKeyFromPayload :: "json \<Rightarrow> string" where
  "promptCacheKeyFromPayload payload =
     (let v = gjsonGet (Some payload) ''prompt_cache_key'';
          key = TrimSpace (gjsonString v)
      in if gjsonExists v \<and> key \<noteq> [] then key
         else
           let w = gjsonGet (gjsonGet (Some payload) ''metadata'') ''prompt_cache_key'';
               key2 = TrimSpace (gjsonString w)
           in if gjsonExists w \<and> key2 \<noteq> [] then key2 else [])"

text \<open>One round of the loop over \<open>messages\<close>; \<open>n\<close> is \<open>len(arr)\<close>, \<open>i\<close> the index.\<close>

definition messagesStep :: "nat \<Rightarrow> nat \<times> json \<Rightarrow> copilotHeaderHints \<Rightarrow> copilotHeaderHints" where
  "messagesStep n im hints =
     (let i = fst im; msg = snd im;
          content = gjsonGet (Some msg) ''content'';
          h1 = (if gjsonIsArray content
                    \<and> list_ex (\<lambda>part. gjsonString (gjsonGet (Some part) ''type'') = ''image_url'')
                         (gjsonArray content)
                then hints\<lparr>hasVision := True\<rparr> else hints);
          role = itemRole msg
      in if role = ''user''
         then (let h2 = h1\<lparr>userFromPayload := True\<rparr>
               in if int i = int n - 1 then h2\<lparr>lastUserFromPayload := True\<rparr> else h2)
         else if role \<noteq> [] then h1\<lparr>agentFromPayload := True\<rparr>
         else h1)"

text \<open>One round of the loop over \<open>input\<close>.\<close>

definition inputStep :: "nat \<Rightarrow> nat \<times> json \<Rightarrow> copilotHeaderHints \<Rightarrow> copilotHeaderHints" where
  "inputStep n ii hints =
     (let i = fst ii; item = snd ii;
          content = gjsonGet (Some item) ''content'';
          h1 = (if gjsonIsArray content \<and> list_ex isResponsesAPIVisionContent (gjsonArray content)
                then hints\<lparr>hasVision := True\<rparr> else hints);
          role = itemRole item;
          h2 = (if role = ''user''
                then (let h = h1\<lparr>userFromPayload := True\<rparr>
                      in if int i = int n - 1 then h\<lparr>lastUserFromPayload := True\<rparr> else h)
                else h1);
          h3 = (if role \<noteq> [] \<and> role \<noteq> ''user'' then h2\<lparr>agentFromPayload := True\<rparr> else h2)
      in if isResponsesAPIAgentItem item then h3\<lparr>agentFromPayload := True\<rparr> else h3)"

text \<open>
  \<open>collectCopilotHeaderHints\<close> runs in three stretches, each starting from the hints the
  one before left: the checks of the top-level fields, the loop over \<open>messages\<close>, the loop
  over \<open>input\<close>.
\<close>

definition topLevelHints :: "json \<Rightarrow> Header \<Rightarrow> copilotHeaderHints" where
  "topLevelHints payload headers =
     (let p = Some payload;
          hints0 = \<lparr>hasVision = False, userFromPayload = False, lastUserFromPayload = False,
                    agentFromPayload = False,
                    forceAgentFromHeaders = forceAgentCallFromHeaders headers,
                    promptCacheKey = promptCacheKeyFromPayload payload\<rparr>;
          hints1 = (if gjsonExists (gjsonGet p ''previous_response_id'')
                    then hints0\<lparr>agentFromPayload := True\<rparr> else hints0);
          hints2 = (if gjsonIsArray (gjsonGet p ''tools'')
                       \<and> length (gjsonArray (gjsonGet p ''tools'')) > 0
                    then hints1\<lparr>agentFromPayload := True\<rparr> else hints1);
          hints3 = (if gjsonIsArray (gjsonGet p ''functions'')
                       \<and> length (gjsonArray (gjsonGet p ''functions'')) > 0
                    then hints2\<lparr>agentFromPayload := True\<rparr> else hints2);
          tc = gjsonGet p ''tool_choice''
      in if gjsonExists tc \<and> gjsonString tc \<noteq> ''none''
         then hints3\<lparr>agentFromPayload := True\<rparr> else hints3)"

definition messagesHints :: "json \<Rightarrow> copilotHeaderHints \<Rightarrow> copilotHeaderHints" where
  "messagesHints payload hints =
     (let messages = gjsonGet (Some payload) ''messages''
      in if gjsonIsArray messages
         then (let arr = gjsonArray messages
               in fold (messagesStep (length arr)) (enumerate 0 arr) hints)
         else hints)"

definition inputHints :: "json \<Rightarrow> copilotHeaderHints \<Rightarrow> copilotHeaderHints" where
  "inputHints payload hints =
     (let input = gjsonGet (Some payload) ''input''
      in if gjsonIsArray input
         then (let arr = gjsonArray input
               in fold (inputStep (length arr)) (enumerate 0 arr) hints)
         else hints)"

definition collectCopilotHeaderHints :: "json \<Rightarrow> Header \<Rightarrow> copilotHeaderHints" where
  "collectCopilotHeaderHints payload headers =
     inputHints payload (messagesHints payload (topLevelHints payload headers))"

section \<open>Initiator classification\<close>

definition countOf :: "(string \<rightharpoonup> 64 word) \<Rightarrow> string \<Rightarrow> 64 word" where
  "countOf m k = (case m k of None \<Rightarrow> 0 | Some c \<Rightarrow> c)"

text \<open>
  The result is the returned flag (\<open>True\<close> for agent) together with the executor after the
  call. \<open>count > 0\<close> compares Go \<open>int\<close>s, hence signed.
\<close>

definition shouldUseAgentInitiator ::
  "CopilotExecutor option \<Rightarrow> copilotHeaderHints \<Rightarrow> bool \<times> CopilotExecutor option" where
  "shouldUseAgentInitiator e h =
     (if forceAgentFromHeaders h then (True, e)
      else if e \<noteq> None \<and> forceAgentCallEnabled e then (True, e)
      else if agentFromPayload h then (True, e)
      else if \<not> userFromPayload h then (True, e)
      else if \<not> lastUserFromPayload h then (True, e)
      else
        (case e of
           None \<Rightarrow> (False, e)
         | Some ex \<Rightarrow>
             if agentInitiatorPersistEnabled e \<and> promptCacheKey h \<noteq> []
             then (let count = countOf (initiatorCount ex) (promptCacheKey h)
                   in (0 <s count,
                       Some (ex\<lparr>initiatorCount :=
                                  (initiatorCount ex)(promptCacheKey h \<mapsto> count + 1)\<rparr>)))
             else (False, e)))"

text \<open>Calls one after another on the same executor, as successive requests make them.\<close>

fun classifyAll ::
  "CopilotExecutor option \<Rightarrow> copilotHeaderHints list \<Rightarrow> bool list \<times> CopilotExecutor option" where
  "classifyAll e [] = ([], e)"
| "classifyAll e (h # hs) =
     (let r = shouldUseAgentInitiator e h; rs = classifyAll (snd r) hs
      in (fst r # fst rs, snd rs))"

section \<open>The rules as the specification words them\<close>

text \<open>
  The definitions of this section follow the specification, not the code; the theorems
  below compare them with the code.
\<close>

text \<open>Membership in an override list, entries compared after trimming and lower-casing.\<close>

definition listedIn :: "string list \<Rightarrow> string \<Rightarrow> bool" where
  "listedIn vs m = (m \<in> set (map normalizeModelID vs))"

text \<open>The eight precedence rules of the header profile selector, first match wins.\<close>

definition headerProfileRules :: "CopilotKey option \<Rightarrow> string \<Rightarrow> copilotHeaderProfile" where
  "headerProfileRules entry model =
     (let m = normalizeModelID model; d = TrimPrefix m ''copilot-'' in
      if m = [] then ''cli''
      else if d = [] then ''cli''
      else if d = ''gpt-4'' then ''cli''
      else if (case entry of None \<Rightarrow> False | Some e \<Rightarrow> listedIn (CLIHeaderModels e) d) then ''cli''
      else if (case entry of None \<Rightarrow> False | Some e \<Rightarrow> listedIn (VSCodeChatHeaderModels e) d)
      then ''vscode-chat''
      else if (case entry of None \<Rightarrow> False
               | Some e \<Rightarrow> ToLower (TrimSpace (HeaderProfile e)) \<in> set [''cli'', ''vscode-chat''])
      then (case entry of None \<Rightarrow> [] | Some e \<Rightarrow> ToLower (TrimSpace (HeaderProfile e)))
      else if d \<in> set defaultCopilotCLIHeaderModels then ''cli''
      else ''vscode-chat'')"

text \<open>A payload that passes the decision rules a, c, d and e: the rules that read the hints.\<close>

definition pureUserTurn :: "copilotHeaderHints \<Rightarrow> bool" where
  "pureUserTurn h = (\<not> forceAgentFromHeaders h \<and> \<not> agentFromPayload h
                      \<and> userFromPayload h \<and> lastUserFromPayload h)"

text \<open>
  The one case in which a call touches the counters: rules a to e all fail to match,
  persistence is enabled and the prompt cache key is not empty.
\<close>

definition countsThisCall :: "CopilotExecutor option \<Rightarrow> copilotHeaderHints \<Rightarrow> bool" where
  "countsThisCall e h =
     (pureUserTurn h \<and> \<not> forceAgentCallEnabled e \<and> agentInitiatorPersistEnabled e
      \<and> promptCacheKey h \<noteq> [])"

text \<open>For a list of keys, whether each one is in \<open>S\<close> or occurred earlier in the list.\<close>

fun seenBefore :: "string set \<Rightarrow> string list \<Rightarrow> bool list" where
  "seenBefore S [] = []"
| "seenBefore S (k # ks) = (k \<in> S) # seenBefore (insert k S) ks"

text \<open>Roles and item types, as the hint collection tells them apart.\<close>

definition agentRole :: "json \<Rightarrow> bool" where
  "agentRole item = (itemRole item = ''assistant'' \<or> itemRole item = ''tool'')"

definition nonUserRole :: "json \<Rightarrow> bool" where
  "nonUserRole item = (itemRole item \<noteq> [] \<and> itemRole item \<noteq> ''user'')"

definition agentType :: "json \<Rightarrow> bool" where
  "agentType item = (gjsonString (gjsonGet (Some item) ''type'') \<in> set responsesAPIAgentTypes)"

definition nonEmptyArray :: "json option \<Rightarrow> bool" where
  "nonEmptyArray r = (case r of Some (JArray (x # xs)) \<Rightarrow> True | _ \<Rightarrow> False)"

definition arrayItems :: "json option \<Rightarrow> json list" where
  "arrayItems r = (case r of Some (JArray xs) \<Rightarrow> xs | _ \<Rightarrow> [])"

text \<open>
  The conditions for \<open>agentFromPayload\<close> as the specification lists them: a role
  \<open>assistant\<close> or \<open>tool\<close> in \<open>messages\<close> or \<open>input\<close>, an agent item type in \<open>input\<close>, a
  non-empty \<open>previous_response_id\<close>, non-empty \<open>tools\<close> or \<open>functions\<close>, a \<open>tool_choice\<close>
  other than \<open>none\<close>.
\<close>

definition agentSignalAsSpecified :: "json \<Rightarrow> bool" where
  "agentSignalAsSpecified payload =
     (let p = Some payload in
        list_ex agentRole (arrayItems (gjsonGet p ''messages''))
      \<or> list_ex (\<lambda>item. agentRole item \<or> agentType item) (arrayItems (gjsonGet p ''input''))
      \<or> gjsonString (gjsonGet p ''previous_response_id'') \<noteq> []
      \<or> nonEmptyArray (gjsonGet p ''tools'')
      \<or> nonEmptyArray (gjsonGet p ''functions'')
      \<or> (gjsonExists (gjsonGet p ''tool_choice'')
           \<and> gjsonString (gjsonGet p ''tool_choice'') \<noteq> ''none''))"

text \<open>
  The same list with the two conditions the code has instead: any role that is neither
  empty nor \<open>user\<close>, and a \<open>previous_response_id\<close> that is present, whatever its value.
\<close>

definition agentSignal :: "json \<Rightarrow> bool" where
  "agentSignal payload =
     (let p = Some payload in
        list_ex nonUserRole (arrayItems (gjsonGet p ''messages''))
      \<or> list_ex (\<lambda>item. nonUserRole item \<or> agentType item) (arrayItems (gjsonGet p ''input''))
      \<or> gjsonExists (gjsonGet p ''previous_response_id'')
      \<or> nonEmptyArray (gjsonGet p ''tools'')
      \<or> nonEmptyArray (gjsonGet p ''functions'')
      \<or> (gjsonExists (gjsonGet p ''tool_choice'')
           \<and> gjsonString (gjsonGet p ''tool_choice'') \<noteq> ''none''))"

section \<open>Sample inputs\<close>

text \<open>Executors, payloads and hints in the shape of those in \<open>copilot_headers_test.go\<close>.\<close>

definition sampleKey :: "bool \<Rightarrow> bool \<Rightarrow> CopilotKey" where
  "sampleKey force persist =
     \<lparr>HeaderProfile = [], CLIHeaderModels = [], VSCodeChatHeaderModels = [],
      ForceAgentCall = force, AgentInitiatorPersist = persist\<rparr>"

definition sampleExecutor :: "CopilotKey list \<Rightarrow> CopilotExecutor" where
  "sampleExecutor keys = \<lparr>cfg = Some \<lparr>CopilotKey = keys\<rparr>, initiatorCount = Map.empty\<rparr>"

definition userTurn :: "string \<Rightarrow> copilotHeaderHints" where
  "userTurn key =
     \<lparr>hasVision = False, userFromPayload = True, lastUserFromPayload = True,
      agentFromPayload = False, forceAgentFromHeaders = False, promptCacheKey = key\<rparr>"

definition message :: "string \<Rightarrow> string \<Rightarrow> json" where
  "message role content = JObject [(''role'', JString role), (''content'', JString content)]"

definition userOnlyPayload :: json where
  "userOnlyPayload = JObject [(''messages'', JArray [message ''user'' ''hello''])]"

definition systemAndUserPayload :: json where
  "systemAndUserPayload =
     JObject [(''messages'', JArray [message ''system'' ''You are helpful'', message ''user'' ''hello''])]"

definition emptyPreviousResponsePayload :: json where
  "emptyPreviousResponsePayload =
     JObject [(''previous_response_id'', JString []),
              (''input'', JArray [message ''user'' ''hello''])]"

definition profileKey :: "string \<Rightarrow> string list \<Rightarrow> string list \<Rightarrow> CopilotKey" where
  "profileKey profile cliModels vscodeModels =
     \<lparr>HeaderProfile = profile, CLIHeaderModels = cliModels, VSCodeChatHeaderModels = vscodeModels,
      ForceAgentCall = False, AgentInitiatorPersist = False\<rparr>"

section \<open>Alias resolution\<close>

text \<open>
  Modelled from the spec: the table of model families that \<open>resolveCodexAlias\<close> looks names
  up in is not among the sources at hand. A family is its name together with the effort
  words that may follow the name (section 4.1).
\<close>

type_synonym aliasFamily = "string \<times> string list"

text \<open>
  Modelled from the spec: the effort levels of \<open>ModelAlias\<close> in the data model (section 3).
\<close>

definition effortNames :: "string list" where
  "effortNames = [''none'', ''minimal'', ''low'', ''medium'', ''high'', ''xhigh'']"

text \<open>
  Modelled from the spec: part of \<open>resolveCodexAlias\<close>, which is not among the sources at
  hand. A name matches a family when it starts with the family name and a hyphen.
\<close>

definition hasFamilyPrefix :: "string \<Rightarrow> string \<Rightarrow> bool" where
  "hasFamilyPrefix modelName family = HasPrefix modelName (family @ ''-'')"

text \<open>
  Modelled from the spec: part of \<open>resolveCodexAlias\<close>, which is not among the sources at
  hand. The known family with the longest name that the model name starts with, a hyphen
  following; of two entries for the same name the earlier one.
\<close>

fun longestFamily :: "aliasFamily list \<Rightarrow> string \<Rightarrow> aliasFamily option" where
  "longestFamily [] modelName = None"
| "longestFamily (f # fs) modelName =
     (case longestFamily fs modelName of
        None \<Rightarrow> (if hasFamilyPrefix modelName (fst f) then Some f else None)
      | Some g \<Rightarrow>
          (if hasFamilyPrefix modelName (fst f) \<and> length (fst g) \<le> length (fst f)
           then Some f else Some g))"

text \<open>
  Modelled from the spec: the function \<open>resolveCodexAlias\<close> and its table of families are
  not among the sources at hand, only the test \<open>TestResolveCodexAlias\<close> is. After section
  4.1: the longest known family prefix is tried first; only once the family is fixed is the
  rest of the name checked against the efforts of that family; an unknown rest, a name
  without a known family and the empty name give \<open>ok = false\<close> with empty base and effort
  (as the test expects). The table is a parameter.
\<close>

definition resolveCodexAlias :: "aliasFamily list \<Rightarrow> string \<Rightarrow> string \<times> string \<times> bool" where
  "resolveCodexAlias families modelName =
     (case longestFamily families modelName of
        None \<Rightarrow> ([], [], False)
      | Some f \<Rightarrow>
          (let suffix = drop (length (fst f) + 1) modelName
           in if suffix \<in> set (snd f) then (fst f, suffix, True) else ([], [], False)))"

text \<open>
  Modelled from the spec: a table with the families that \<open>TestResolveCodexAlias\<close> names, each
  with the effort words that section 4.1 gives its generation.
\<close>

definition codexFamilies :: "aliasFamily list" where
  "codexFamilies =
     [(''gpt-5'', [''minimal'', ''low'', ''medium'', ''high'']),
      (''gpt-5-codex'', [''minimal'', ''low'', ''medium'', ''high'']),
      (''gpt-5.1'', [''none'', ''low'', ''medium'', ''high'']),
      (''gpt-5.1-codex-max'', [''none'', ''low'', ''medium'', ''high'', ''xhigh'']),
      (''gpt-5.2'', [''none'', ''low'', ''medium'', ''high'', ''xhigh'']),
      (''gpt-5.2-codex'', [''none'', ''low'', ''medium'', ''high'', ''xhigh''])]"

section \<open>Payload mutation\<close>

text \<open>
  Modelled from the spec: part of \<open>setReasoningEffortByAlias\<close>, which is not among the
  sources at hand. Setting a member of a JSON object: the first member with the key gets
  the new value in its place, so that the other members keep their values and their order;
  without such a member the new one goes to the end.
\<close>

fun setMember :: "(string \<times> json) list \<Rightarrow> string \<Rightarrow> json \<Rightarrow> (string \<times> json) list" where
  "setMember [] k v = [(k, v)]"
| "setMember (kv # kvs) k v = (if fst kv = k then (k, v) # kvs else kv # setMember kvs k v)"

text \<open>
  Modelled from the spec: the function \<open>setReasoningEffortByAlias\<close> is not among the sources
  at hand, only the test \<open>TestSetReasoningEffortByAlias\<close> is. After section 4.2: the
  top-level \<open>model\<close> is always overwritten with the base model; an effort that is not empty
  after trimming and lower-casing is stored, so normalised, as \<open>reasoning.effort\<close>; an
  empty one leaves \<open>reasoning\<close> alone. The payload is a JSON object (section 3), given by
  its members; a \<open>reasoning\<close> member that is no object gives way to a fresh object.
\<close>

definition setReasoningEffortByAlias ::
  "(string \<times> json) list \<Rightarrow> string \<Rightarrow> string \<Rightarrow> (string \<times> json) list" where
  "setReasoningEffortByAlias payload baseModel effort =
     (let withModel = setMember payload ''model'' (JString baseModel);
          e = ToLower (TrimSpace effort)
      in if e = [] then withModel
         else
           let reasoning = (case map_of withModel ''reasoning'' of
                              Some (JObject r) \<Rightarrow> r | _ \<Rightarrow> [])
           in setMember withModel ''reasoning''
                (JObject (setMember reasoning ''effort'' (JString e))))"

section \<open>Model catalogue\<close>

text \<open>
  \<open>registry.ModelInfo\<close> is declared outside the files at hand; the record carries the fields
  that \<open>openai_model_map.go\<close> and the tests read. \<open>Created\<close> is a Unix time.
\<close>

record ModelInfo =
  ID :: string
  OwnedBy :: string
  Type :: string
  Object :: string
  Created :: int
  ContextLength :: int
  MaxCompletionTokens :: int
  InputTokenLimit :: int
  OutputTokenLimit :: int
  SupportedParameters :: "string list"

text \<open>
  Modelled from the spec: the comparison of IDs in \<open>mergeEssentialCopilotModels\<close>, which is
  not among the sources at hand: without regard to case (section 4.7).
\<close>

definition foldID :: "ModelInfo \<Rightarrow> string" where
  "foldID m = ToLower (ID m)"

text \<open>
  Modelled from the spec: part of \<open>mergeEssentialCopilotModels\<close>, which is not among the
  sources at hand. Whether a list of models has an entry with the ID, compared without
  regard to case.
\<close>

definition hasModelID :: "ModelInfo list \<Rightarrow> string \<Rightarrow> bool" where
  "hasModelID ms i = (ToLower i \<in> set (map foldID ms))"

text \<open>
  Modelled from the spec: the list \<open>essentialCopilotModels\<close> is not among the sources at hand,
  only the test \<open>TestEssentialCopilotModels_ContainsRequiredModels\<close> is. The essential models
  are given by their IDs; the list has the one ID that the test requires.
\<close>

definition essentialCopilotModels :: "string list" where
  "essentialCopilotModels = [''gemini-3-flash-preview'']"

text \<open>
  Modelled from the spec: part of \<open>mergeEssentialCopilotModels\<close>, which is not among the
  sources at hand. The entry that is synthesized for an essential model, after section 4.7
  and the test \<open>TestMergeEssentialCopilotModels_ModelAttributes\<close>: owner and type
  \<open>copilot\<close>, object \<open>model\<close>, \<open>Created\<close> the time of the call, default limits, and
  \<open>tools\<close> as the supported parameter. Of the two default limits the specification says only
  that they are above zero; 128000 and 16384 stand for them.
\<close>

definition synthesizeEssentialModel :: "string \<Rightarrow> int \<Rightarrow> ModelInfo" where
  "synthesizeEssentialModel i now =
     \<lparr>ID = i, OwnedBy = ''copilot'', Type = ''copilot'', Object = ''model'', Created = now,
      ContextLength = 128000, MaxCompletionTokens = 16384,
      InputTokenLimit = 0, OutputTokenLimit = 0,
      SupportedParameters = [''tools'']\<rparr>"

text \<open>
  Modelled from the spec: part of \<open>mergeEssentialCopilotModels\<close>, which is not among the
  sources at hand. The essential models whose ID is not among the existing ones, compared
  without regard to case, in the order of the list of essential models.
\<close>

definition missingEssentialModels :: "ModelInfo list \<Rightarrow> string list" where
  "missingEssentialModels existing =
     filter (\<lambda>i. \<not> hasModelID existing i) essentialCopilotModels"

text \<open>
  Modelled from the spec: the function \<open>mergeEssentialCopilotModels\<close> is not among the sources
  at hand, only its tests are. After section 4.7: the existing entries stay, in their order;
  for each essential model that is missing among them an entry is synthesized, with the
  time of the call, and appended.
\<close>

definition mergeEssentialCopilotModels :: "ModelInfo list \<Rightarrow> int \<Rightarrow> ModelInfo list" where
  "mergeEssentialCopilotModels existing now =
     existing @ map (\<lambda>i. synthesizeEssentialModel i now) (missingEssentialModels existing)"

text \<open>
  An entry of a catalogue as the tests write it: an ID and the owner, nothing else.
\<close>

definition catalogEntry :: "string \<Rightarrow> ModelInfo" where
  "catalogEntry i =
     \<lparr>ID = i, OwnedBy = ''copilot'', Type = [], Object = [], Created = 0, ContextLength = 0,
      MaxCompletionTokens = 0, InputTokenLimit = 0, OutputTokenLimit = 0,
      SupportedParameters = []\<rparr>"

section \<open>Header profile selection: properties\<close>

lemma rangeMatches_listedIn: "rangeMatches vs m = listedIn vs m"
  by (induction vs) (auto simp: listedIn_def)

lemma profile_eq_rules: "copilotHeaderProfileForModel entry model = headerProfileRules entry model"
  by (cases entry)
     (auto simp: copilotHeaderProfileForModel_def headerProfileRules_def Let_def
        rangeMatches_listedIn listedIn_def copilotHeaderProfileCLI_def
        copilotHeaderProfileVSCodeChat_def)

lemma rules_total: "headerProfileRules entry model \<in> {''cli'', ''vscode-chat''}"
  by (cases entry) (auto simp: headerProfileRules_def Let_def)

text \<open>
  Claim C5. \<open>copilotHeaderProfileForModel\<close> returns \<open>cli\<close> or \<open>vscode-chat\<close> for every
  configuration entry and model, and its result is the one the eight precedence rules give,
  taken in order. In particular: a de-aliased model \<open>gpt-4\<close> gives CLI whatever the entry
  lists; a model in \<open>CLIHeaderModels\<close>, or else in \<open>VSCodeChatHeaderModels\<close>, gets that
  profile whatever \<open>HeaderProfile\<close> says; and with the model in neither list a recognized
  \<open>HeaderProfile\<close> is the result, whether or not the built-in allowlist has the model.
\<close>

theorem copilotHeaderProfileForModel_precedence:
  "copilotHeaderProfileForModel entry model = headerProfileRules entry model
   \<and> copilotHeaderProfileForModel entry model
        \<in> {copilotHeaderProfileCLI, copilotHeaderProfileVSCodeChat}
   \<and> (TrimPrefix (normalizeModelID model) ''copilot-'' = ''gpt-4''
        \<longrightarrow> copilotHeaderProfileForModel entry model = copilotHeaderProfileCLI)
   \<and> (TrimPrefix (normalizeModelID model) ''copilot-'' \<noteq> []
        \<and> listedIn (CLIHeaderModels e) (TrimPrefix (normalizeModelID model) ''copilot-'')
        \<longrightarrow> copilotHeaderProfileForModel (Some e) model = copilotHeaderProfileCLI)
   \<and> (TrimPrefix (normalizeModelID model) ''copilot-'' \<notin> {[], ''gpt-4''}
        \<and> \<not> listedIn (CLIHeaderModels e) (TrimPrefix (normalizeModelID model) ''copilot-'')
        \<and> listedIn (VSCodeChatHeaderModels e) (TrimPrefix (normalizeModelID model) ''copilot-'')
        \<longrightarrow> copilotHeaderProfileForModel (Some e) model = copilotHeaderProfileVSCodeChat)
   \<and> (TrimPrefix (normalizeModelID model) ''copilot-'' \<notin> {[], ''gpt-4''}
        \<and> \<not> listedIn (CLIHeaderModels e) (TrimPrefix (normalizeModelID model) ''copilot-'')
        \<and> \<not> listedIn (VSCodeChatHeaderModels e) (TrimPrefix (normalizeModelID model) ''copilot-'')
        \<and> ToLower (TrimSpace (HeaderProfile e))
             \<in> {copilotHeaderProfileCLI, copilotHeaderProfileVSCodeChat}
        \<longrightarrow> copilotHeaderProfileForModel (Some e) model = ToLower (TrimSpace (HeaderProfile e)))"
proof -
  have nonempty: "normalizeModelID model \<noteq> []"
    if "TrimPrefix (normalizeModelID model) ''copilot-'' \<noteq> []"
    using that by (auto simp: TrimPrefix_def HasPrefix_def)
  show ?thesis
    unfolding profile_eq_rules
    using rules_total [of entry model] nonempty
    by (auto simp: headerProfileRules_def Let_def copilotHeaderProfileCLI_def
          copilotHeaderProfileVSCodeChat_def)
qed

text \<open>
  The theorem at the inputs of the claim: \<open>copilot-gpt-4\<close> with \<open>gpt-4\<close> listed for
  VSCodeChat; \<open>gemini-3-pro\<close> listed for CLI under a \<open>vscode-chat\<close> default; \<open>gpt-5\<close>
  listed for VSCodeChat under a \<open>cli\<close> default; \<open>gpt-5\<close>, which the allowlist has, under a
  \<open>vscode-chat\<close> default.
\<close>

theorem copilotHeaderProfileForModel_precedence_witness:
  "copilotHeaderProfileForModel (Some (profileKey ''cli'' [] [''gpt-4''])) ''copilot-gpt-4''
     = copilotHeaderProfileCLI
   \<and> copilotHeaderProfileForModel (Some (profileKey ''vscode-chat'' [''gemini-3-pro''] []))
        ''gemini-3-pro'' = copilotHeaderProfileCLI
   \<and> copilotHeaderProfileForModel (Some (profileKey ''cli'' [] [''gpt-5''])) ''gpt-5''
     = copilotHeaderProfileVSCodeChat
   \<and> copilotHeaderProfileForModel (Some (profileKey '' VSCode-Chat'' [] [])) ''gpt-5''
     = ''vscode-chat''"
proof -
  have a: "TrimPrefix (normalizeModelID ''copilot-gpt-4'') ''copilot-'' = ''gpt-4''"
    by code_simp
  have b: "TrimPrefix (normalizeModelID ''gemini-3-pro'') ''copilot-'' \<noteq> []
           \<and> listedIn (CLIHeaderModels (profileKey ''vscode-chat'' [''gemini-3-pro''] []))
                (TrimPrefix (normalizeModelID ''gemini-3-pro'') ''copilot-'')"
    by code_simp
  have c: "TrimPrefix (normalizeModelID ''gpt-5'') ''copilot-'' \<notin> {[], ''gpt-4''}
           \<and> \<not> listedIn (CLIHeaderModels (profileKey ''cli'' [] [''gpt-5'']))
                  (TrimPrefix (normalizeModelID ''gpt-5'') ''copilot-'')
           \<and> listedIn (VSCodeChatHeaderModels (profileKey ''cli'' [] [''gpt-5'']))
                  (TrimPrefix (normalizeModelID ''gpt-5'') ''copilot-'')"
    by code_simp
  have d: "TrimPrefix (normalizeModelID ''gpt-5'') ''copilot-'' \<notin> {[], ''gpt-4''}
           \<and> \<not> listedIn (CLIHeaderModels (profileKey '' VSCode-Chat'' [] []))
                  (TrimPrefix (normalizeModelID ''gpt-5'') ''copilot-'')
           \<and> \<not> listedIn (VSCodeChatHeaderModels (profileKey '' VSCode-Chat'' [] []))
                  (TrimPrefix (normalizeModelID ''gpt-5'') ''copilot-'')
           \<and> ToLower (TrimSpace (HeaderProfile (profileKey '' VSCode-Chat'' [] [])))
                \<in> {copilotHeaderProfileCLI, copilotHeaderProfileVSCodeChat}"
    by code_simp
  have d': "ToLower (TrimSpace (HeaderProfile (profileKey '' VSCode-Chat'' [] []))) = ''vscode-chat''"
    by code_simp
  note p = copilotHeaderProfileForModel_precedence
  from p [of "Some (profileKey ''cli'' [] [''gpt-4''])" "''copilot-gpt-4''"] a
  have "copilotHeaderProfileForModel (Some (profileKey ''cli'' [] [''gpt-4''])) ''copilot-gpt-4''
          = copilotHeaderProfileCLI"
    by blast
  moreover from p [of _ "''gemini-3-pro''" "profileKey ''vscode-chat'' [''gemini-3-pro''] []"] b
  have "copilotHeaderProfileForModel (Some (profileKey ''vscode-chat'' [''gemini-3-pro''] []))
          ''gemini-3-pro'' = copilotHeaderProfileCLI"
    by blast
  moreover from p [of _ "''gpt-5''" "profileKey ''cli'' [] [''gpt-5'']"] c
  have "copilotHeaderProfileForModel (Some (profileKey ''cli'' [] [''gpt-5''])) ''gpt-5''
          = copilotHeaderProfileVSCodeChat"
    by blast
  moreover from p [of _ "''gpt-5''" "profileKey '' VSCode-Chat'' [] []"] d d'
  have "copilotHeaderProfileForModel (Some (profileKey '' VSCode-Chat'' [] [])) ''gpt-5''
          = ''vscode-chat''"
    by metis
  ultimately show ?thesis by blast
qed

section \<open>Configuration flags: properties\<close>

lemma rangeForceAgentCall_iff: "rangeForceAgentCall ks = (\<exists>k \<in> set ks. ForceAgentCall k)"
  by (induction ks) auto

lemma rangeAgentInitiatorPersist_iff:
  "rangeAgentInitiatorPersist ks = (\<exists>k \<in> set ks. AgentInitiatorPersist k)"
  by (induction ks) auto

text \<open>
  Claim C10. The force-agent flag and the persist-initiator flag are each on as soon as any
  configured credential entry sets them. The header profile selector gets the first entry
  only, whatever follows it. With no entry at all (or no configuration, or no executor)
  both flags are off and the selector gets no entry.
\<close>

theorem flags_any_entry_profile_first_entry:
  "forceAgentCallEnabled (Some \<lparr>cfg = Some c, initiatorCount = m\<rparr>)
     = (\<exists>k \<in> set (CopilotKey c). ForceAgentCall k)
   \<and> agentInitiatorPersistEnabled (Some \<lparr>cfg = Some c, initiatorCount = m\<rparr>)
     = (\<exists>k \<in> set (CopilotKey c). AgentInitiatorPersist k)
   \<and> copilotKeyConfig (Some \<lparr>cfg = Some \<lparr>CopilotKey = k # ks\<rparr>, initiatorCount = m\<rparr>) = Some k
   \<and> applyCopilotHeaderProfile (Some \<lparr>cfg = Some \<lparr>CopilotKey = k # ks\<rparr>, initiatorCount = m\<rparr>) model
     = copilotHeaderProfileForModel (Some k) model
   \<and> \<not> forceAgentCallEnabled (Some \<lparr>cfg = Some \<lparr>CopilotKey = []\<rparr>, initiatorCount = m\<rparr>)
   \<and> \<not> agentInitiatorPersistEnabled (Some \<lparr>cfg = Some \<lparr>CopilotKey = []\<rparr>, initiatorCount = m\<rparr>)
   \<and> copilotKeyConfig (Some \<lparr>cfg = Some \<lparr>CopilotKey = []\<rparr>, initiatorCount = m\<rparr>) = None
   \<and> applyCopilotHeaderProfile (Some \<lparr>cfg = Some \<lparr>CopilotKey = []\<rparr>, initiatorCount = m\<rparr>) model
     = copilotHeaderProfileForModel None model
   \<and> \<not> forceAgentCallEnabled (Some \<lparr>cfg = None, initiatorCount = m\<rparr>)
   \<and> \<not> agentInitiatorPersistEnabled (Some \<lparr>cfg = None, initiatorCount = m\<rparr>)
   \<and> copilotKeyConfig (Some \<lparr>cfg = None, initiatorCount = m\<rparr>) = None
   \<and> \<not> forceAgentCallEnabled None \<and> \<not> agentInitiatorPersistEnabled None
   \<and> copilotKeyConfig None = None"
  by (simp add: forceAgentCallEnabled_def agentInitiatorPersistEnabled_def copilotKeyConfig_def
        applyCopilotHeaderProfile_def rangeForceAgentCall_iff rangeAgentInitiatorPersist_iff)

text \<open>
  Two entries, the flags set by the second one only, the profile lists by the first one
  only: both flags are on, and \<open>gemini-2.5-pro\<close>, which the second entry lists for CLI, gets
  the profile the first entry alone gives it.
\<close>

theorem flags_any_entry_profile_first_entry_witness:
  "forceAgentCallEnabled (Some \<lparr>cfg = Some \<lparr>CopilotKey = [sampleKey False False, sampleKey True True]\<rparr>,
                                initiatorCount = Map.empty\<rparr>)
   \<and> agentInitiatorPersistEnabled
        (Some \<lparr>cfg = Some \<lparr>CopilotKey = [sampleKey False False, sampleKey True True]\<rparr>,
               initiatorCount = Map.empty\<rparr>)
   \<and> applyCopilotHeaderProfile
        (Some \<lparr>cfg = Some \<lparr>CopilotKey = [profileKey [] [] [], profileKey [] [''gemini-2.5-pro''] []]\<rparr>,
               initiatorCount = Map.empty\<rparr>) ''gemini-2.5-pro''
       = copilotHeaderProfileVSCodeChat"
proof -
  note f = flags_any_entry_profile_first_entry
  have k: "\<exists>k \<in> set [sampleKey False False, sampleKey True True]. ForceAgentCall k"
    and p: "\<exists>k \<in> set [sampleKey False False, sampleKey True True]. AgentInitiatorPersist k"
    by (simp_all add: sampleKey_def)
  have v: "copilotHeaderProfileForModel (Some (profileKey [] [] [])) ''gemini-2.5-pro''
             = copilotHeaderProfileVSCodeChat"
    by code_simp
  from f [of "\<lparr>CopilotKey = [sampleKey False False, sampleKey True True]\<rparr>" Map.empty] k p
  have "forceAgentCallEnabled (Some \<lparr>cfg = Some \<lparr>CopilotKey = [sampleKey False False, sampleKey True True]\<rparr>,
                                initiatorCount = Map.empty\<rparr>)
   \<and> agentInitiatorPersistEnabled
        (Some \<lparr>cfg = Some \<lparr>CopilotKey = [sampleKey False False, sampleKey True True]\<rparr>,
               initiatorCount = Map.empty\<rparr>)"
    by simp
  moreover from f [of _ Map.empty "profileKey [] [] []" "[profileKey [] [''gemini-2.5-pro''] []]"
                      "''gemini-2.5-pro''"] v
  have "applyCopilotHeaderProfile
        (Some \<lparr>cfg = Some \<lparr>CopilotKey = [profileKey [] [] [], profileKey [] [''gemini-2.5-pro''] []]\<rparr>,
               initiatorCount = Map.empty\<rparr>) ''gemini-2.5-pro''
       = copilotHeaderProfileVSCodeChat"
    by simp
  ultimately show ?thesis by blast
qed

section \<open>Hint collection: properties\<close>

lemma messagesStep_fields:
  "forceAgentFromHeaders (messagesStep n im h) = forceAgentFromHeaders h"
  "promptCacheKey (messagesStep n im h) = promptCacheKey h"
  "agentFromPayload (messagesStep n im h) = (agentFromPayload h \<or> nonUserRole (snd im))"
  by (auto simp: messagesStep_def Let_def nonUserRole_def)

lemma inputStep_fields:
  "forceAgentFromHeaders (inputStep n im h) = forceAgentFromHeaders h"
  "promptCacheKey (inputStep n im h) = promptCacheKey h"
  "agentFromPayload (inputStep n im h)
     = (agentFromPayload h \<or> nonUserRole (snd im) \<or> agentType (snd im))"
  by (auto simp: inputStep_def Let_def nonUserRole_def agentType_def isResponsesAPIAgentItem_def)

lemma fold_messagesStep:
  "forceAgentFromHeaders (fold (messagesStep n) xs h) = forceAgentFromHeaders h"
  "promptCacheKey (fold (messagesStep n) xs h) = promptCacheKey h"
  "agentFromPayload (fold (messagesStep n) xs h)
     = (agentFromPayload h \<or> list_ex nonUserRole (map snd xs))"
  by (induction xs arbitrary: h) (auto simp: messagesStep_fields)

lemma fold_inputStep:
  "forceAgentFromHeaders (fold (inputStep n) xs h) = forceAgentFromHeaders h"
  "promptCacheKey (fold (inputStep n) xs h) = promptCacheKey h"
  "agentFromPayload (fold (inputStep n) xs h)
     = (agentFromPayload h \<or> list_ex (\<lambda>item. nonUserRole item \<or> agentType item) (map snd xs))"
  by (induction xs arbitrary: h) (auto simp: inputStep_fields)

lemma array_views:
  "gjsonIsArray r \<Longrightarrow> gjsonArray r = arrayItems r"
  "\<not> gjsonIsArray r \<Longrightarrow> arrayItems r = []"
  by (auto simp: gjsonIsArray_def gjsonArray_def arrayItems_def
      split: option.splits json.splits)

lemma nonEmptyArray_iff:
  "nonEmptyArray r = (gjsonIsArray r \<and> 0 < length (gjsonArray r))"
  by (auto simp: gjsonIsArray_def gjsonArray_def nonEmptyArray_def
      split: option.splits json.splits list.splits)

lemma topLevelHints_fields:
  "forceAgentFromHeaders (topLevelHints payload headers) = forceAgentCallFromHeaders headers"
  "promptCacheKey (topLevelHints payload headers) = promptCacheKeyFromPayload payload"
  "agentFromPayload (topLevelHints payload headers)
     = (gjsonExists (gjsonGet (Some payload) ''previous_response_id'')
        \<or> nonEmptyArray (gjsonGet (Some payload) ''tools'')
        \<or> nonEmptyArray (gjsonGet (Some payload) ''functions'')
        \<or> (gjsonExists (gjsonGet (Some payload) ''tool_choice'')
             \<and> gjsonString (gjsonGet (Some payload) ''tool_choice'') \<noteq> ''none''))"
  unfolding topLevelHints_def Let_def nonEmptyArray_iff by simp_all

lemma messagesHints_fields:
  "forceAgentFromHeaders (messagesHints payload h) = forceAgentFromHeaders h"
  "promptCacheKey (messagesHints payload h) = promptCacheKey h"
  "agentFromPayload (messagesHints payload h)
     = (agentFromPayload h \<or> list_ex nonUserRole (arrayItems (gjsonGet (Some payload) ''messages'')))"
  by (simp_all add: messagesHints_def Let_def fold_messagesStep map_snd_enumerate array_views)

lemma inputHints_fields:
  "forceAgentFromHeaders (inputHints payload h) = forceAgentFromHeaders h"
  "promptCacheKey (inputHints payload h) = promptCacheKey h"
  "agentFromPayload (inputHints payload h)
     = (agentFromPayload h
        \<or> list_ex (\<lambda>item. nonUserRole item \<or> agentType item)
             (arrayItems (gjsonGet (Some payload) ''input'')))"
  by (simp_all add: inputHints_def Let_def fold_inputStep map_snd_enumerate array_views)

lemma hints_force:
  "forceAgentFromHeaders (collectCopilotHeaderHints payload headers)
     = forceAgentCallFromHeaders headers"
  by (simp add: collectCopilotHeaderHints_def topLevelHints_fields messagesHints_fields
        inputHints_fields)

lemma hints_key:
  "promptCacheKey (collectCopilotHeaderHints payload headers) = promptCacheKeyFromPayload payload"
  by (simp add: collectCopilotHeaderHints_def topLevelHints_fields messagesHints_fields
        inputHints_fields)

text \<open>
  Claim C2, as the code has it. \<open>collectCopilotHeaderHints\<close> sets \<open>agentFromPayload\<close>
  exactly when one of these holds: some entry of \<open>messages\<close> has a role (trimmed,
  lower-cased) that is neither empty nor \<open>user\<close>; some entry of \<open>input\<close> has such a role or a
  type in the closed set of agent item types; \<open>previous_response_id\<close> is present, whatever
  its value; \<open>tools\<close> is a non-empty array; \<open>functions\<close> is a non-empty array; \<open>tool_choice\<close>
  is present and reads other than \<open>none\<close>.
\<close>

theorem agentFromPayload_iff_agentSignal:
  "agentFromPayload (collectCopilotHeaderHints payload headers) = agentSignal payload"
  unfolding collectCopilotHeaderHints_def inputHints_fields messagesHints_fields
    topLevelHints_fields agentSignal_def Let_def
  by blast

text \<open>
  The theorem at the payload whose \<open>messages\<close> hold one user message and nothing else,
  which shows none of the signs.
\<close>

theorem agentFromPayload_iff_agentSignal_witness:
  "\<not> agentFromPayload (collectCopilotHeaderHints userOnlyPayload None)"
proof -
  have "\<not> agentSignal userOnlyPayload"
    by code_simp
  with agentFromPayload_iff_agentSignal [of userOnlyPayload None] show ?thesis
    by simp
qed

text \<open>
  Claim C2, as the specification words it, fails. A \<open>system\<close> message before the user
  message sets \<open>agentFromPayload\<close> (the test case \<open>chat completions - system and user only\<close>
  of the repository expects agent for it), and so does an empty \<open>previous_response_id\<close>;
  neither payload meets any of the listed conditions.
\<close>

theorem agentFromPayload_not_as_specified:
  "agentFromPayload (collectCopilotHeaderHints systemAndUserPayload None)
   \<and> \<not> agentSignalAsSpecified systemAndUserPayload
   \<and> agentFromPayload (collectCopilotHeaderHints emptyPreviousResponsePayload None)
   \<and> \<not> agentSignalAsSpecified emptyPreviousResponsePayload"
  by code_simp

section \<open>Initiator classification: properties\<close>

lemma sint_succ64:
  fixes c :: "64 word"
  assumes "sint c < 2 ^ 63 - 1"
  shows "sint (c + 1) = sint c + 1"
proof -
  have lo: "- (2 ^ 63) \<le> sint c"
    using sint_ge [of c] by simp
  have "sint (c + 1) = signed_take_bit 63 (sint c + 1)"
    by (simp add: sint_word_ariths)
  also have "\<dots> = sint c + 1"
    using assms lo by (intro signed_take_bit_int_eq_self) auto
  finally show ?thesis .
qed

lemma persist_None: "\<not> agentInitiatorPersistEnabled None"
  by (simp add: agentInitiatorPersistEnabled_def)

lemma force_None: "\<not> forceAgentCallEnabled None"
  by (simp add: forceAgentCallEnabled_def)

lemma should_counts:
  assumes "countsThisCall (Some ex) h"
  shows "shouldUseAgentInitiator (Some ex) h =
           (0 < sint (countOf (initiatorCount ex) (promptCacheKey h)),
            Some (ex\<lparr>initiatorCount := (initiatorCount ex)
                   (promptCacheKey h \<mapsto> countOf (initiatorCount ex) (promptCacheKey h) + 1)\<rparr>))"
  using assms
  by (simp add: shouldUseAgentInitiator_def countsThisCall_def pureUserTurn_def Let_def
        word_sless_alt)

lemma should_not_counts:
  assumes "\<not> countsThisCall e h"
  shows "snd (shouldUseAgentInitiator e h) = e"
  using assms
  by (cases e)
     (auto simp: shouldUseAgentInitiator_def countsThisCall_def pureUserTurn_def Let_def
        persist_None force_None)

lemma should_plain_user:
  assumes "pureUserTurn h" "\<not> forceAgentCallEnabled e"
    "\<not> agentInitiatorPersistEnabled e \<or> promptCacheKey h = []"
  shows "shouldUseAgentInitiator e h = (False, e)"
  using assms
  by (cases e) (auto simp: shouldUseAgentInitiator_def pureUserTurn_def Let_def)

lemma should_cascade:
  "fst (shouldUseAgentInitiator e h) =
     (if forceAgentFromHeaders h then True
      else if (\<exists>ex c. e = Some ex \<and> cfg ex = Some c \<and> (\<exists>k \<in> set (CopilotKey c). ForceAgentCall k))
      then True
      else if agentFromPayload h then True
      else if \<not> userFromPayload h then True
      else if \<not> lastUserFromPayload h then True
      else (\<exists>ex c. e = Some ex \<and> cfg ex = Some c
              \<and> (\<exists>k \<in> set (CopilotKey c). AgentInitiatorPersist k)
              \<and> promptCacheKey h \<noteq> []
              \<and> 0 < sint (countOf (initiatorCount ex) (promptCacheKey h))))"
  by (cases e; cases "cfg (the e)")
     (auto simp: shouldUseAgentInitiator_def forceAgentCallEnabled_def
        agentInitiatorPersistEnabled_def rangeForceAgentCall_iff rangeAgentInitiatorPersist_iff
        Let_def word_sless_alt)

text \<open>
  Claim C1. For every executor and every hints record the flag that
  \<open>shouldUseAgentInitiator\<close> returns (true for agent) is fixed by the rules a to f, taken in
  this order: the force header; a credential entry that sets \<open>ForceAgentCall\<close>;
  \<open>agentFromPayload\<close>; no user message; last item not a user message; and then, with
  persistence on and a non-empty prompt cache key, agent exactly when the counter stored
  for the key was positive before the call, user in every other case. In particular a
  truthy force header gives agent for every payload.
\<close>

theorem shouldUseAgentInitiator_rule_order:
  "fst (shouldUseAgentInitiator e h) =
     (if forceAgentFromHeaders h then True
      else if (\<exists>ex c. e = Some ex \<and> cfg ex = Some c \<and> (\<exists>k \<in> set (CopilotKey c). ForceAgentCall k))
      then True
      else if agentFromPayload h then True
      else if \<not> userFromPayload h then True
      else if \<not> lastUserFromPayload h then True
      else (\<exists>ex c. e = Some ex \<and> cfg ex = Some c
              \<and> (\<exists>k \<in> set (CopilotKey c). AgentInitiatorPersist k)
              \<and> promptCacheKey h \<noteq> []
              \<and> 0 < sint (countOf (initiatorCount ex) (promptCacheKey h))))
   \<and> (forceAgentCallFromHeaders headers \<longrightarrow>
        fst (shouldUseAgentInitiator e (collectCopilotHeaderHints payload headers)))"
  using should_cascade [of e h]
    should_cascade [of e "collectCopilotHeaderHints payload headers"]
  by (simp add: hints_force)

text \<open>
  The theorem at the payload with one user message and the inbound header
  \<open>force-copilot-agent: true\<close>, on an executor with an empty configuration: agent.
\<close>

theorem shouldUseAgentInitiator_rule_order_witness:
  "fst (shouldUseAgentInitiator (Some (sampleExecutor []))
          (collectCopilotHeaderHints userOnlyPayload (Some [''Force-Copilot-Agent'' \<mapsto> [''true'']])))"
proof -
  have h: "forceAgentCallFromHeaders (Some [''Force-Copilot-Agent'' \<mapsto> [''true'']])"
    by code_simp
  from shouldUseAgentInitiator_rule_order
         [where e = "Some (sampleExecutor [])" and payload = userOnlyPayload
            and headers = "Some [''Force-Copilot-Agent'' \<mapsto> [''true'']]"] h
  show ?thesis by blast
qed

subsection \<open>Calls in sequence\<close>

lemma flags_ignore_counts:
  "forceAgentCallEnabled (Some (ex\<lparr>initiatorCount := m\<rparr>)) = forceAgentCallEnabled (Some ex)"
  "agentInitiatorPersistEnabled (Some (ex\<lparr>initiatorCount := m\<rparr>))
     = agentInitiatorPersistEnabled (Some ex)"
  by (simp_all add: forceAgentCallEnabled_def agentInitiatorPersistEnabled_def)

lemma countOf_upd:
  "countOf (m(k \<mapsto> c)) k' = (if k' = k then c else countOf m k')"
  by (simp add: countOf_def)

lemma length_classifyAll: "length (fst (classifyAll e hs)) = length hs"
  by (induction hs arbitrary: e) (simp_all add: Let_def)

lemma seenBefore_nth:
  "i < length ks \<Longrightarrow> seenBefore S ks ! i = (ks ! i \<in> S \<or> ks ! i \<in> set (take i ks))"
proof (induction ks arbitrary: S i)
  case Nil
  then show ?case by simp
next
  case (Cons k ks)
  show ?case
  proof (cases i)
    case 0
    then show ?thesis by simp
  next
    case (Suc j)
    with Cons.prems have "j < length ks" by simp
    from Cons.IH [OF this, of "insert k S"] Suc show ?thesis by auto
  qed
qed

lemma classifyAll_seenBefore:
  assumes "agentInitiatorPersistEnabled (Some ex)"
    and "\<not> forceAgentCallEnabled (Some ex)"
    and "\<forall>h \<in> set hs. pureUserTurn h \<and> promptCacheKey h \<noteq> []"
    and "\<forall>h \<in> set hs. 0 \<le> sint (countOf (initiatorCount ex) (promptCacheKey h))
            \<and> sint (countOf (initiatorCount ex) (promptCacheKey h)) + int (length hs) < 2 ^ 63"
  shows "fst (classifyAll (Some ex) hs)
           = seenBefore {k. 0 < sint (countOf (initiatorCount ex) k)} (map promptCacheKey hs)"
  using assms
proof (induction hs arbitrary: ex)
  case Nil
  then show ?case by simp
next
  case (Cons h hs)
  let ?k = "promptCacheKey h"
  let ?c = "countOf (initiatorCount ex) ?k"
  let ?ex' = "ex\<lparr>initiatorCount := (initiatorCount ex)(?k \<mapsto> ?c + 1)\<rparr>"
  have counts: "countsThisCall (Some ex) h"
    using Cons.prems by (simp add: countsThisCall_def)
  have step: "shouldUseAgentInitiator (Some ex) h = (0 < sint ?c, Some ?ex')"
    by (rule should_counts [OF counts])
  have c0: "0 \<le> sint ?c" and c1: "sint ?c < 2 ^ 63 - 1"
    using Cons.prems(4) by auto
  have succ: "sint (?c + 1) = sint ?c + 1"
    by (rule sint_succ64 [OF c1])
  have seen: "{k. 0 < sint (countOf (initiatorCount ?ex') k)}
                = insert ?k {k. 0 < sint (countOf (initiatorCount ex) k)}"
    using c0 succ by (auto simp: countOf_upd)
  have bound: "\<forall>g \<in> set hs. 0 \<le> sint (countOf (initiatorCount ?ex') (promptCacheKey g))
            \<and> sint (countOf (initiatorCount ?ex') (promptCacheKey g)) + int (length hs) < 2 ^ 63"
    using Cons.prems(4) c0 succ by (auto simp: countOf_upd)
  have p1: "agentInitiatorPersistEnabled (Some ?ex')"
    using Cons.prems(1) by (simp add: flags_ignore_counts)
  have p2: "\<not> forceAgentCallEnabled (Some ?ex')"
    using Cons.prems(2) by (simp add: flags_ignore_counts)
  have p3: "\<forall>g \<in> set hs. pureUserTurn g \<and> promptCacheKey g \<noteq> []"
    using Cons.prems(3) by simp
  have "fst (classifyAll (Some ?ex') hs)
          = seenBefore {k. 0 < sint (countOf (initiatorCount ?ex') k)} (map promptCacheKey hs)"
    by (rule Cons.IH [OF p1 p2 p3 bound])
  then show ?case
    using step seen by (simp add: Let_def)
qed

lemma classifyAll_no_persist:
  assumes "\<not> agentInitiatorPersistEnabled e" and "\<not> forceAgentCallEnabled e"
    and "\<forall>h \<in> set hs. pureUserTurn h"
  shows "classifyAll e hs = (replicate (length hs) False, e)"
  using assms by (induction hs) (simp_all add: should_plain_user Let_def)

text \<open>
  Claim C3. Take an executor without a force-agent entry and a sequence of calls (shorter
  than \<open>2 ^ 63\<close>, the range of the counters), each with a payload that passes the rules a
  to e and a non-empty prompt cache key that the executor has not seen. With persistence
  on, a call is classified agent exactly when an earlier call of the sequence had the same
  key: the first call with each key is user, every later call with it is agent, and the
  first call with another fresh key is user again. With persistence off every call is
  user.
\<close>

theorem persisted_initiator_first_call_only:
  assumes "\<forall>h \<in> set hs. pureUserTurn h \<and> promptCacheKey h \<noteq> []"
    and "\<not> forceAgentCallEnabled (Some ex)"
    and "\<forall>h \<in> set hs. initiatorCount ex (promptCacheKey h) = None"
    and "length hs < 2 ^ 63"
  shows "length (fst (classifyAll (Some ex) hs)) = length hs
     \<and> (agentInitiatorPersistEnabled (Some ex) \<longrightarrow>
          (\<forall>i < length hs. fst (classifyAll (Some ex) hs) ! i
               = (\<exists>j < i. promptCacheKey (hs ! j) = promptCacheKey (hs ! i))))
     \<and> (\<not> agentInitiatorPersistEnabled (Some ex) \<longrightarrow>
          (\<forall>i < length hs. \<not> fst (classifyAll (Some ex) hs) ! i))"
proof (intro conjI impI allI)
  show "length (fst (classifyAll (Some ex) hs)) = length hs"
    by (rule length_classifyAll)
next
  fix i
  assume persist: "agentInitiatorPersistEnabled (Some ex)" and i: "i < length hs"
  have zero: "\<forall>h \<in> set hs. countOf (initiatorCount ex) (promptCacheKey h) = 0"
    using assms(3) by (simp add: countOf_def)
  have bound: "\<forall>h \<in> set hs. 0 \<le> sint (countOf (initiatorCount ex) (promptCacheKey h))
            \<and> sint (countOf (initiatorCount ex) (promptCacheKey h)) + int (length hs) < 2 ^ 63"
    using zero assms(4) by simp
  have res: "fst (classifyAll (Some ex) hs)
               = seenBefore {k. 0 < sint (countOf (initiatorCount ex) k)} (map promptCacheKey hs)"
    by (rule classifyAll_seenBefore [OF persist assms(2) assms(1) bound])
  have fresh: "promptCacheKey (hs ! i) \<notin> {k. 0 < sint (countOf (initiatorCount ex) k)}"
    using zero i by simp
  have "fst (classifyAll (Some ex) hs) ! i
          = (promptCacheKey (hs ! i) \<in> set (take i (map promptCacheKey hs)))"
    using seenBefore_nth [of i "map promptCacheKey hs"] i fresh res by simp
  also have "\<dots> = (\<exists>j < i. promptCacheKey (hs ! j) = promptCacheKey (hs ! i))"
    using i by (auto simp: in_set_conv_nth)
  finally show "fst (classifyAll (Some ex) hs) ! i
          = (\<exists>j < i. promptCacheKey (hs ! j) = promptCacheKey (hs ! i))" .
next
  fix i
  assume "\<not> agentInitiatorPersistEnabled (Some ex)" and "i < length hs"
  then show "\<not> fst (classifyAll (Some ex) hs) ! i"
    using classifyAll_no_persist [of "Some ex" hs] assms(1,2) by simp
qed

text \<open>
  The theorem on a fresh executor with persistence on and the calls with the keys
  \<open>thread-1\<close>, \<open>thread-1\<close>, \<open>thread-2\<close>, \<open>thread-1\<close>: user, agent, user, agent.
\<close>

theorem persisted_initiator_first_call_only_witness:
  "fst (classifyAll (Some (sampleExecutor [sampleKey False True]))
          [userTurn ''thread-1'', userTurn ''thread-1'', userTurn ''thread-2'', userTurn ''thread-1''])
     = [False, True, False, True]"
proof -
  let ?ex = "sampleExecutor [sampleKey False True]"
  let ?hs = "[userTurn ''thread-1'', userTurn ''thread-1'', userTurn ''thread-2'', userTurn ''thread-1'']"
  have a: "\<forall>h \<in> set ?hs. pureUserTurn h \<and> promptCacheKey h \<noteq> []"
    by (simp add: userTurn_def pureUserTurn_def)
  have b: "\<not> forceAgentCallEnabled (Some ?ex)"
    by (simp add: sampleExecutor_def sampleKey_def forceAgentCallEnabled_def)
  have c: "\<forall>h \<in> set ?hs. initiatorCount ?ex (promptCacheKey h) = None"
    by (simp add: sampleExecutor_def)
  have d: "length ?hs < 2 ^ 63"
    by simp
  have p: "agentInitiatorPersistEnabled (Some ?ex)"
    by (simp add: sampleExecutor_def sampleKey_def agentInitiatorPersistEnabled_def)
  define rs where "rs = fst (classifyAll (Some ?ex) ?hs)"
  from persisted_initiator_first_call_only [OF a b c d] p
  have "length rs = length ?hs
        \<and> (\<forall>i < length ?hs. rs ! i = (\<exists>j < i. promptCacheKey (?hs ! j) = promptCacheKey (?hs ! i)))"
    unfolding rs_def by blast
  then have len: "length rs = 4"
    and nth: "\<And>i. i < 4 \<Longrightarrow> rs ! i = (\<exists>j < i. promptCacheKey (?hs ! j) = promptCacheKey (?hs ! i))"
    by simp_all
  have r0: "rs ! 0 = False"
    using nth [of 0] by simp
  have r1: "rs ! 1 = True"
    using nth [of 1] by (simp add: userTurn_def)
  have r2: "rs ! 2 = False"
    using nth [of 2] by (simp add: userTurn_def eval_nat_numeral Ex_less_Suc)
  have r3: "rs ! 3 = True"
    using nth [of 3] by (simp add: userTurn_def eval_nat_numeral Ex_less_Suc)
  have "rs = [False, True, False, True]"
    using len r0 r1 r2 r3
    by (simp add: list_eq_iff_nth_eq eval_nat_numeral All_less_Suc)
  then show ?thesis
    unfolding rs_def .
qed

lemma classifyAll_monotone:
  assumes "\<forall>k. 0 \<le> sint (countOf (initiatorCount ex) k)
             \<and> sint (countOf (initiatorCount ex) k) + int (length hs) < 2 ^ 63"
  shows "\<exists>ex'. snd (classifyAll (Some ex) hs) = Some ex'
           \<and> dom (initiatorCount ex) \<subseteq> dom (initiatorCount ex')
           \<and> (\<forall>k. sint (countOf (initiatorCount ex) k) \<le> sint (countOf (initiatorCount ex') k)
                \<and> sint (countOf (initiatorCount ex') k)
                    \<le> sint (countOf (initiatorCount ex) k) + int (length hs))"
  using assms
proof (induction hs arbitrary: ex)
  case Nil
  then show ?case by simp
next
  case (Cons h hs)
  show ?case
  proof (cases "countsThisCall (Some ex) h")
    case False
    then have same: "snd (shouldUseAgentInitiator (Some ex) h) = Some ex"
      by (rule should_not_counts)
    have "\<forall>k. 0 \<le> sint (countOf (initiatorCount ex) k)
             \<and> sint (countOf (initiatorCount ex) k) + int (length hs) < 2 ^ 63"
    proof
      fix k
      from Cons.prems have "0 \<le> sint (countOf (initiatorCount ex) k)
             \<and> sint (countOf (initiatorCount ex) k) + int (length (h # hs)) < 2 ^ 63"
        by blast
      then show "0 \<le> sint (countOf (initiatorCount ex) k)
             \<and> sint (countOf (initiatorCount ex) k) + int (length hs) < 2 ^ 63"
        by simp
    qed
    from Cons.IH [OF this] obtain ex' where
      "snd (classifyAll (Some ex) hs) = Some ex'"
      "dom (initiatorCount ex) \<subseteq> dom (initiatorCount ex')"
      "\<forall>k. sint (countOf (initiatorCount ex) k) \<le> sint (countOf (initiatorCount ex') k)
                \<and> sint (countOf (initiatorCount ex') k)
                    \<le> sint (countOf (initiatorCount ex) k) + int (length hs)"
      by blast
    then show ?thesis
      using same by (auto simp: Let_def intro: order_trans)
  next
    case True
    let ?k = "promptCacheKey h"
    let ?c = "countOf (initiatorCount ex) ?k"
    let ?mid = "ex\<lparr>initiatorCount := (initiatorCount ex)(?k \<mapsto> ?c + 1)\<rparr>"
    have step: "snd (shouldUseAgentInitiator (Some ex) h) = Some ?mid"
      by (simp add: should_counts [OF True])
    have c1: "sint ?c < 2 ^ 63 - 1"
      using Cons.prems by (auto dest: spec [of _ ?k])
    have succ: "sint (?c + 1) = sint ?c + 1"
      by (rule sint_succ64 [OF c1])
    have mid: "sint (countOf (initiatorCount ?mid) k)
                 = sint (countOf (initiatorCount ex) k) + (if k = ?k then 1 else 0)" for k
      using succ by (simp add: countOf_upd)
    have "\<forall>k. 0 \<le> sint (countOf (initiatorCount ?mid) k)
             \<and> sint (countOf (initiatorCount ?mid) k) + int (length hs) < 2 ^ 63"
    proof
      fix k
      from Cons.prems have "0 \<le> sint (countOf (initiatorCount ex) k)
             \<and> sint (countOf (initiatorCount ex) k) + int (length (h # hs)) < 2 ^ 63"
        by blast
      then show "0 \<le> sint (countOf (initiatorCount ?mid) k)
             \<and> sint (countOf (initiatorCount ?mid) k) + int (length hs) < 2 ^ 63"
        using mid [of k] by (simp split: if_splits)
    qed
    from Cons.IH [OF this] obtain ex' where ex':
      "snd (classifyAll (Some ?mid) hs) = Some ex'"
      "dom (initiatorCount ?mid) \<subseteq> dom (initiatorCount ex')"
      "\<forall>k. sint (countOf (initiatorCount ?mid) k) \<le> sint (countOf (initiatorCount ex') k)
                \<and> sint (countOf (initiatorCount ex') k)
                    \<le> sint (countOf (initiatorCount ?mid) k) + int (length hs)"
      by blast
    have "dom (initiatorCount ex) \<subseteq> dom (initiatorCount ex')"
      using ex'(2) by auto
    moreover have "\<forall>k. sint (countOf (initiatorCount ex) k) \<le> sint (countOf (initiatorCount ex') k)
                \<and> sint (countOf (initiatorCount ex') k)
                    \<le> sint (countOf (initiatorCount ex) k) + int (length (h # hs))"
    proof
      fix k
      from ex'(3) have "sint (countOf (initiatorCount ?mid) k) \<le> sint (countOf (initiatorCount ex') k)
                \<and> sint (countOf (initiatorCount ex') k)
                    \<le> sint (countOf (initiatorCount ?mid) k) + int (length hs)"
        by blast
      then show "sint (countOf (initiatorCount ex) k) \<le> sint (countOf (initiatorCount ex') k)
                \<and> sint (countOf (initiatorCount ex') k)
                    \<le> sint (countOf (initiatorCount ex) k) + int (length (h # hs))"
        using mid [of k] by (simp split: if_splits)
    qed
    ultimately show ?thesis
      using step ex'(1) by (simp add: Let_def)
  qed
qed

text \<open>
  Claim C4. A call to \<open>shouldUseAgentInitiator\<close> returns the executor as it was, unless
  the rules a to e all fail to match, persistence is on and the prompt cache key is not
  empty. In that case the configuration stays, the counter of the prompt cache key becomes
  the old one plus one (in the 64-bit arithmetic of Go's \<open>int\<close>; as integers whenever the
  old counter is below the largest \<open>int\<close>), every other entry of the map is as before, and
  no key leaves the map. Over any sequence of calls that leaves the counters room below
  \<open>2 ^ 63\<close>, no key leaves the map and no counter ends lower than it started.
\<close>

theorem initiatorCount_frame:
  "(\<not> countsThisCall e h \<longrightarrow> snd (shouldUseAgentInitiator e h) = e)
   \<and> (countsThisCall (Some ex) h \<longrightarrow>
        (\<exists>ex'. snd (shouldUseAgentInitiator (Some ex) h) = Some ex'
           \<and> cfg ex' = cfg ex
           \<and> countOf (initiatorCount ex') (promptCacheKey h)
               = countOf (initiatorCount ex) (promptCacheKey h) + 1
           \<and> (sint (countOf (initiatorCount ex) (promptCacheKey h)) < 2 ^ 63 - 1 \<longrightarrow>
                sint (countOf (initiatorCount ex') (promptCacheKey h))
                  = sint (countOf (initiatorCount ex) (promptCacheKey h)) + 1)
           \<and> (\<forall>k. k \<noteq> promptCacheKey h \<longrightarrow> initiatorCount ex' k = initiatorCount ex k)
           \<and> dom (initiatorCount ex) \<subseteq> dom (initiatorCount ex')))
   \<and> ((\<forall>k. 0 \<le> sint (countOf (initiatorCount ex) k)
             \<and> sint (countOf (initiatorCount ex) k) + int (length hs) < 2 ^ 63) \<longrightarrow>
        (\<exists>ex'. snd (classifyAll (Some ex) hs) = Some ex'
           \<and> dom (initiatorCount ex) \<subseteq> dom (initiatorCount ex')
           \<and> (\<forall>k. sint (countOf (initiatorCount ex) k) \<le> sint (countOf (initiatorCount ex') k))))"
proof (intro conjI impI)
  assume "\<not> countsThisCall e h"
  then show "snd (shouldUseAgentInitiator e h) = e"
    by (rule should_not_counts)
next
  assume counts: "countsThisCall (Some ex) h"
  show "\<exists>ex'. snd (shouldUseAgentInitiator (Some ex) h) = Some ex'
           \<and> cfg ex' = cfg ex
           \<and> countOf (initiatorCount ex') (promptCacheKey h)
               = countOf (initiatorCount ex) (promptCacheKey h) + 1
           \<and> (sint (countOf (initiatorCount ex) (promptCacheKey h)) < 2 ^ 63 - 1 \<longrightarrow>
                sint (countOf (initiatorCount ex') (promptCacheKey h))
                  = sint (countOf (initiatorCount ex) (promptCacheKey h)) + 1)
           \<and> (\<forall>k. k \<noteq> promptCacheKey h \<longrightarrow> initiatorCount ex' k = initiatorCount ex k)
           \<and> dom (initiatorCount ex) \<subseteq> dom (initiatorCount ex')"
    using sint_succ64 [of "countOf (initiatorCount ex) (promptCacheKey h)"]
    by (auto simp: should_counts [OF counts] countOf_upd)
next
  assume "\<forall>k. 0 \<le> sint (countOf (initiatorCount ex) k)
             \<and> sint (countOf (initiatorCount ex) k) + int (length hs) < 2 ^ 63"
  from classifyAll_monotone [OF this]
  show "\<exists>ex'. snd (classifyAll (Some ex) hs) = Some ex'
           \<and> dom (initiatorCount ex) \<subseteq> dom (initiatorCount ex')
           \<and> (\<forall>k. sint (countOf (initiatorCount ex) k) \<le> sint (countOf (initiatorCount ex') k))"
    by blast
qed

text \<open>
  The theorem on a fresh executor with persistence on: a call that the force header
  decides leaves the executor alone; a user turn with the key \<open>thread-1\<close> leaves the
  counter of that key at one and the counter of \<open>thread-2\<close> at zero; two such calls in a row
  leave no counter below zero.
\<close>

theorem initiatorCount_frame_witness:
  "snd (shouldUseAgentInitiator (Some (sampleExecutor [sampleKey False True]))
          ((userTurn ''thread-1'')\<lparr>forceAgentFromHeaders := True\<rparr>))
     = Some (sampleExecutor [sampleKey False True])
   \<and> (\<exists>ex'. snd (shouldUseAgentInitiator (Some (sampleExecutor [sampleKey False True]))
                   (userTurn ''thread-1'')) = Some ex'
         \<and> sint (countOf (initiatorCount ex') ''thread-1'') = 1
         \<and> initiatorCount ex' ''thread-2'' = None)
   \<and> (\<exists>ex'. snd (classifyAll (Some (sampleExecutor [sampleKey False True]))
                   [userTurn ''thread-1'', userTurn ''thread-1'']) = Some ex'
         \<and> (\<forall>k. 0 \<le> sint (countOf (initiatorCount ex') k)))"
proof -
  let ?ex = "sampleExecutor [sampleKey False True]"
  note f = initiatorCount_frame
  have no: "\<not> countsThisCall (Some ?ex) ((userTurn ''thread-1'')\<lparr>forceAgentFromHeaders := True\<rparr>)"
    by (simp add: countsThisCall_def pureUserTurn_def)
  have yes: "countsThisCall (Some ?ex) (userTurn ''thread-1'')"
    by (simp add: countsThisCall_def pureUserTurn_def userTurn_def sampleExecutor_def sampleKey_def
          forceAgentCallEnabled_def agentInitiatorPersistEnabled_def)
  have zero: "countOf (initiatorCount ?ex) k = 0" for k
    by (simp add: sampleExecutor_def countOf_def)
  have room: "\<forall>k. 0 \<le> sint (countOf (initiatorCount ?ex) k)
             \<and> sint (countOf (initiatorCount ?ex) k)
                 + int (length [userTurn ''thread-1'', userTurn ''thread-1'']) < 2 ^ 63"
    by (simp add: zero)
  from f [where e = "Some ?ex" and h = "(userTurn ''thread-1'')\<lparr>forceAgentFromHeaders := True\<rparr>"] no
  have one: "snd (shouldUseAgentInitiator (Some ?ex)
                ((userTurn ''thread-1'')\<lparr>forceAgentFromHeaders := True\<rparr>)) = Some ?ex"
    by blast
  from f [where ex = ?ex and h = "userTurn ''thread-1''"] yes
  obtain ex' where ex': "snd (shouldUseAgentInitiator (Some ?ex) (userTurn ''thread-1'')) = Some ex'"
    "sint (countOf (initiatorCount ?ex) (promptCacheKey (userTurn ''thread-1''))) < 2 ^ 63 - 1 \<longrightarrow>
       sint (countOf (initiatorCount ex') (promptCacheKey (userTurn ''thread-1'')))
         = sint (countOf (initiatorCount ?ex) (promptCacheKey (userTurn ''thread-1''))) + 1"
    "\<forall>k. k \<noteq> promptCacheKey (userTurn ''thread-1'') \<longrightarrow> initiatorCount ex' k = initiatorCount ?ex k"
    by blast
  have key: "promptCacheKey (userTurn ''thread-1'') = ''thread-1''"
    by (simp add: userTurn_def)
  have none: "initiatorCount ?ex ''thread-2'' = None"
    by (simp add: sampleExecutor_def)
  have "sint (countOf (initiatorCount ex') ''thread-1'') = 1"
    using ex'(2) by (simp add: zero key)
  moreover have "initiatorCount ex' ''thread-2'' = None"
    using ex'(3) by (simp add: key none)
  ultimately have two: "\<exists>ex'. snd (shouldUseAgentInitiator (Some ?ex) (userTurn ''thread-1'')) = Some ex'
         \<and> sint (countOf (initiatorCount ex') ''thread-1'') = 1
         \<and> initiatorCount ex' ''thread-2'' = None"
    using ex'(1) by blast
  from f [where ex = ?ex and hs = "[userTurn ''thread-1'', userTurn ''thread-1'']"] room
  obtain ex2 where ex2: "snd (classifyAll (Some ?ex) [userTurn ''thread-1'', userTurn ''thread-1''])
                           = Some ex2"
    "\<forall>k. sint (countOf (initiatorCount ?ex) k) \<le> sint (countOf (initiatorCount ex2) k)"
    by blast
  have "\<forall>k. 0 \<le> sint (countOf (initiatorCount ex2) k)"
    using ex2(2) by (simp add: zero)
  then have three: "\<exists>ex'. snd (classifyAll (Some ?ex) [userTurn ''thread-1'', userTurn ''thread-1''])
                        = Some ex'
         \<and> (\<forall>k. 0 \<le> sint (countOf (initiatorCount ex') k))"
    using ex2(1) by blast
  from one two three show ?thesis by blast
qed

section \<open>Alias resolution: properties\<close>

lemma hasFamilyPrefix_iff:
  "hasFamilyPrefix m F = (\<exists>s. m = F @ ''-'' @ s)"
proof
  assume "hasFamilyPrefix m F"
  then have "take (length (F @ ''-'')) m = F @ ''-''"
    by (simp add: hasFamilyPrefix_def HasPrefix_def)
  then have "m = (F @ ''-'') @ drop (length (F @ ''-'')) m"
    by (metis append_take_drop_id)
  then show "\<exists>s. m = F @ ''-'' @ s"
    by (metis append.assoc)
next
  assume "\<exists>s. m = F @ ''-'' @ s"
  then show "hasFamilyPrefix m F"
    by (auto simp: hasFamilyPrefix_def HasPrefix_def)
qed

lemma longestFamily_Some:
  "longestFamily fams m = Some f \<Longrightarrow>
     f \<in> set fams \<and> hasFamilyPrefix m (fst f)
     \<and> (\<forall>g \<in> set fams. hasFamilyPrefix m (fst g) \<longrightarrow> length (fst g) \<le> length (fst f))"
proof (induction fams arbitrary: f)
  case Nil
  then show ?case by simp
next
  case (Cons a fams)
  show ?case
  proof (cases "longestFamily fams m")
    case None
    have none: "\<not> hasFamilyPrefix m (fst g)" if "g \<in> set fams" for g
      using that None
    proof (induction fams)
      case Nil
      then show ?case by simp
    next
      case (Cons b bs)
      then show ?case by (auto split: option.splits if_splits)
    qed
    from Cons.prems None have "hasFamilyPrefix m (fst a)" and "f = a"
      by (auto split: if_splits)
    then show ?thesis using none by auto
  next
    case (Some g)
    note ih = Cons.IH [OF Some]
    show ?thesis
    proof (cases "hasFamilyPrefix m (fst a) \<and> length (fst g) \<le> length (fst a)")
      case True
      with Cons.prems Some have "f = a" by simp
      with True ih show ?thesis by (auto intro: order_trans)
    next
      case False
      with Cons.prems Some have "f = g" by auto
      with False ih show ?thesis by auto
    qed
  qed
qed

lemma longestFamily_None:
  "longestFamily fams m = None \<Longrightarrow> g \<in> set fams \<Longrightarrow> \<not> hasFamilyPrefix m (fst g)"
  by (induction fams) (auto split: option.splits if_splits)

lemma effortNames_no_hyphen: "s \<in> set effortNames \<Longrightarrow> CHR ''-'' \<notin> set s"
  by (auto simp: effortNames_def)

text \<open>
  Two ways to read a name as family, hyphen, rest: when the rest after the shorter family
  has no hyphen, the families are the same.
\<close>

lemma family_split_unique:
  assumes "F @ ''-'' @ s = G @ ''-'' @ t" and "length F \<le> length G" and "CHR ''-'' \<notin> set s"
  shows "G = F \<and> t = s"
proof -
  from assms(1) have "F @ (''-'' @ s) = G @ (''-'' @ t)" by simp
  with assms(2) obtain u where u: "G = F @ u" "''-'' @ s = u @ ''-'' @ t"
    by (auto simp: append_eq_append_conv2 dest: arg_cong [where f = length])
  have "u = []"
  proof (cases u)
    case Nil
    then show ?thesis .
  next
    case (Cons c cs)
    with u(2) have "s = cs @ ''-'' @ t" by simp
    then have "CHR ''-'' \<in> set s" by simp
    with assms(3) show ?thesis by contradiction
  qed
  with u show ?thesis by simp
qed

lemma distinct_fst_unique:
  assumes "distinct (map fst xs)" and "(k, v) \<in> set xs" and "(k, v') \<in> set xs"
  shows "v = v'"
proof -
  from assms(1,2) have "map_of xs k = Some v"
    by (simp add: map_of_eq_Some_iff)
  moreover from assms(1,3) have "map_of xs k = Some v'"
    by (simp add: map_of_eq_Some_iff)
  ultimately show ?thesis by simp
qed

lemma resolve_ok_iff:
  assumes "distinct (map fst fams)"
    and "\<forall>f \<in> set fams. set (snd f) \<subseteq> set effortNames"
  shows "(resolveCodexAlias fams m = (F, s, True))
           = (\<exists>es. (F, es) \<in> set fams \<and> s \<in> set es \<and> m = F @ ''-'' @ s)"
proof
  assume ok: "resolveCodexAlias fams m = (F, s, True)"
  then obtain f where f: "longestFamily fams m = Some f"
    by (auto simp: resolveCodexAlias_def split: option.splits)
  from ok f have F: "fst f = F" and s: "s = drop (length F + 1) m" "s \<in> set (snd f)"
    by (auto simp: resolveCodexAlias_def Let_def split: if_splits)
  from longestFamily_Some [OF f] have mem: "f \<in> set fams" and pre: "hasFamilyPrefix m F"
    using F by auto
  from pre obtain t where "m = F @ ''-'' @ t"
    by (auto simp: hasFamilyPrefix_iff)
  with s(1) have "m = F @ ''-'' @ s" by simp
  moreover from mem F have "(F, snd f) \<in> set fams"
    by (metis prod.collapse)
  ultimately show "\<exists>es. (F, es) \<in> set fams \<and> s \<in> set es \<and> m = F @ ''-'' @ s"
    using s(2) by blast
next
  assume "\<exists>es. (F, es) \<in> set fams \<and> s \<in> set es \<and> m = F @ ''-'' @ s"
  then obtain es where es: "(F, es) \<in> set fams" "s \<in> set es" "m = F @ ''-'' @ s"
    by blast
  from assms(2) es(1) have "set (snd (F, es)) \<subseteq> set effortNames" by blast
  with es(2) have "s \<in> set effortNames" by auto
  then have nohyphen: "CHR ''-'' \<notin> set s"
    by (rule effortNames_no_hyphen)
  have pre: "hasFamilyPrefix m F"
    using es(3) by (auto simp: hasFamilyPrefix_iff)
  obtain g where g: "longestFamily fams m = Some g"
    using longestFamily_None [of fams m "(F, es)"] es(1) pre by (cases "longestFamily fams m") auto
  from longestFamily_Some [OF g] have gmem: "g \<in> set fams" and gpre: "hasFamilyPrefix m (fst g)"
    and glong: "length F \<le> length (fst g)"
    using es(1) pre by auto
  from gpre obtain t where "m = fst g @ ''-'' @ t"
    by (auto simp: hasFamilyPrefix_iff)
  with es(3) have "F @ ''-'' @ s = fst g @ ''-'' @ t" by simp
  from family_split_unique [OF this glong nohyphen] have same: "fst g = F" by simp
  from gmem same have "(F, snd g) \<in> set fams"
    by (metis prod.collapse)
  from distinct_fst_unique [OF assms(1) this es(1)] same have "g = (F, es)"
    by (metis prod.collapse)
  then show "resolveCodexAlias fams m = (F, s, True)"
    using g es(2,3) by (simp add: resolveCodexAlias_def)
qed

lemma resolve_not_ok:
  "\<not> snd (snd (resolveCodexAlias fams m)) \<Longrightarrow> resolveCodexAlias fams m = ([], [], False)"
  by (auto simp: resolveCodexAlias_def Let_def split: option.splits if_splits)

lemma codexFamilies_wf:
  "distinct (map fst codexFamilies)"
  "\<forall>f \<in> set codexFamilies. set (snd f) \<subseteq> set effortNames"
  by (simp_all add: codexFamilies_def effortNames_def)

text \<open>
  Claim C6. For a table of families with distinct names whose efforts are effort levels of
  the data model, \<open>resolveCodexAlias\<close> returns \<open>ok = true\<close> with base \<open>F\<close> and effort \<open>s\<close>
  exactly when the name is \<open>F-s\<close> for a known family \<open>F\<close> and an effort \<open>s\<close> of \<open>F\<close>; every
  other name gives \<open>ok = false\<close> with empty base and effort, among them a known family
  followed by a word without hyphen that is not one of its efforts. On the table of the
  test: \<open>gpt-5.1-codex-max-xhigh\<close> resolves to \<open>gpt-5.1-codex-max\<close> and \<open>xhigh\<close>,
  \<open>gpt-5-codex-high\<close> to \<open>gpt-5-codex\<close> and \<open>high\<close>; the bare names \<open>gpt-5\<close> and \<open>gpt-5-codex\<close>
  (which is not read as \<open>gpt-5\<close> with the effort \<open>codex\<close>), \<open>claude-sonnet-4\<close>, the empty
  name and \<open>gpt-5-ultra\<close> give \<open>ok = false\<close>.
\<close>

theorem resolveCodexAlias_family_effort:
  assumes "distinct (map fst fams)"
    and "\<forall>f \<in> set fams. set (snd f) \<subseteq> set effortNames"
  shows "(resolveCodexAlias fams m = (F, s, True))
           = (\<exists>es. (F, es) \<in> set fams \<and> s \<in> set es \<and> m = F @ ''-'' @ s)
     \<and> (\<not> snd (snd (resolveCodexAlias fams m)) \<longrightarrow> resolveCodexAlias fams m = ([], [], False))
     \<and> ((F, es) \<in> set fams \<and> CHR ''-'' \<notin> set w \<and> w \<notin> set es
          \<longrightarrow> resolveCodexAlias fams (F @ ''-'' @ w) = ([], [], False))
     \<and> resolveCodexAlias codexFamilies ''gpt-5.1-codex-max-xhigh''
          = (''gpt-5.1-codex-max'', ''xhigh'', True)
     \<and> resolveCodexAlias codexFamilies ''gpt-5-codex-high'' = (''gpt-5-codex'', ''high'', True)
     \<and> resolveCodexAlias codexFamilies ''gpt-5-codex'' = ([], [], False)
     \<and> resolveCodexAlias codexFamilies ''gpt-5'' = ([], [], False)
     \<and> resolveCodexAlias codexFamilies ''claude-sonnet-4'' = ([], [], False)
     \<and> resolveCodexAlias codexFamilies [] = ([], [], False)
     \<and> resolveCodexAlias codexFamilies ''gpt-5-ultra'' = ([], [], False)"
proof -
  have unknown: "resolveCodexAlias fams (F @ ''-'' @ w) = ([], [], False)"
    if mem: "(F, es) \<in> set fams" and w: "CHR ''-'' \<notin> set w" "w \<notin> set es"
  proof (rule resolve_not_ok, rule notI)
    assume "snd (snd (resolveCodexAlias fams (F @ ''-'' @ w)))"
    then obtain G t where "resolveCodexAlias fams (F @ ''-'' @ w) = (G, t, True)"
      by (metis prod.collapse)
    with resolve_ok_iff [OF assms, of "F @ ''-'' @ w" G t]
    obtain gs where gs: "(G, gs) \<in> set fams" "t \<in> set gs" "F @ ''-'' @ w = G @ ''-'' @ t"
      by blast
    from assms(2) gs(1) have "set (snd (G, gs)) \<subseteq> set effortNames" by blast
    with gs(2) have "t \<in> set effortNames" by auto
    then have t: "CHR ''-'' \<notin> set t"
      by (rule effortNames_no_hyphen)
    have "G = F \<and> t = w"
    proof (cases "length F \<le> length G")
      case True
      from family_split_unique [OF gs(3) True w(1)] show ?thesis by simp
    next
      case False
      then have "length G \<le> length F" by simp
      from family_split_unique [OF gs(3) [symmetric] this t] show ?thesis by simp
    qed
    moreover then have "gs = es"
      using distinct_fst_unique [OF assms(1), of F gs es] gs(1) mem by simp
    ultimately show False
      using gs(2) w(2) by simp
  qed
  have examples:
    "resolveCodexAlias codexFamilies ''gpt-5.1-codex-max-xhigh''
          = (''gpt-5.1-codex-max'', ''xhigh'', True)
     \<and> resolveCodexAlias codexFamilies ''gpt-5-codex-high'' = (''gpt-5-codex'', ''high'', True)
     \<and> resolveCodexAlias codexFamilies ''gpt-5-codex'' = ([], [], False)
     \<and> resolveCodexAlias codexFamilies ''gpt-5'' = ([], [], False)
     \<and> resolveCodexAlias codexFamilies ''claude-sonnet-4'' = ([], [], False)
     \<and> resolveCodexAlias codexFamilies [] = ([], [], False)
     \<and> resolveCodexAlias codexFamilies ''gpt-5-ultra'' = ([], [], False)"
    by code_simp
  show ?thesis
    using resolve_ok_iff [OF assms, of m F s] resolve_not_ok [of fams m] unknown examples
    by blast
qed

text \<open>
  The theorem on the table of the test: the name \<open>gpt-5.2-codex-xhigh\<close> is the family
  \<open>gpt-5.2-codex\<close> with its effort \<open>xhigh\<close>, and \<open>gpt-5.1\<close> followed by \<open>minimal\<close>, which is
  not among its efforts, is no alias.
\<close>

theorem resolveCodexAlias_family_effort_witness:
  "resolveCodexAlias codexFamilies ''gpt-5.2-codex-xhigh'' = (''gpt-5.2-codex'', ''xhigh'', True)
   \<and> resolveCodexAlias codexFamilies ''gpt-5.1-minimal'' = ([], [], False)"
proof -
  note r = resolveCodexAlias_family_effort [OF codexFamilies_wf]
  have a: "\<exists>es. (''gpt-5.2-codex'', es) \<in> set codexFamilies \<and> ''xhigh'' \<in> set es
             \<and> ''gpt-5.2-codex-xhigh'' = ''gpt-5.2-codex'' @ ''-'' @ ''xhigh''"
    by (simp add: codexFamilies_def)
  have b: "(''gpt-5.1'', [''none'', ''low'', ''medium'', ''high'']) \<in> set codexFamilies
           \<and> CHR ''-'' \<notin> set ''minimal''
           \<and> ''minimal'' \<notin> set [''none'', ''low'', ''medium'', ''high'']"
    by (simp add: codexFamilies_def)
  from r [where m = "''gpt-5.2-codex-xhigh''" and F = "''gpt-5.2-codex''" and s = "''xhigh''"] a
  have "resolveCodexAlias codexFamilies ''gpt-5.2-codex-xhigh'' = (''gpt-5.2-codex'', ''xhigh'', True)"
    by blast
  moreover
  from r [where F = "''gpt-5.1''" and es = "[''none'', ''low'', ''medium'', ''high'']"
            and w = "''minimal''"] b
  have "resolveCodexAlias codexFamilies (''gpt-5.1'' @ ''-'' @ ''minimal'') = ([], [], False)"
    by blast
  ultimately show ?thesis by simp
qed

section \<open>Payload mutation: properties\<close>

lemma map_of_setMember:
  "map_of (setMember kvs k v) k' = (if k' = k then Some v else map_of kvs k')"
  by (induction kvs) auto

lemma filter_setMember:
  "(\<And>v'. \<not> P (k, v')) \<Longrightarrow> filter P (setMember kvs k v) = filter P kvs"
proof (induction kvs)
  case Nil
  then show ?case by simp
next
  case (Cons kv kvs)
  obtain a b where kv: "kv = (a, b)" by (cases kv)
  show ?case
    using Cons by (simp add: kv)
qed

lemma gjsonGet_members: "gjsonGet (Some (JObject kvs)) k = map_of kvs k"
  by (simp add: gjsonGet_def)

text \<open>
  Claim C7. For every JSON object as payload (the empty one included), the result of
  \<open>setReasoningEffortByAlias\<close> has the base model as its top-level \<open>model\<close>. If the
  effort, trimmed and lower-cased, is not empty, \<open>reasoning.effort\<close> is that normalised
  effort; if it is empty, \<open>reasoning\<close> is as in the payload, so that \<open>reasoning.effort\<close>
  stays absent where it was absent and is not set to the empty string. The members other
  than \<open>model\<close> and \<open>reasoning\<close> keep their values and their order, and so do the
  members other than \<open>effort\<close> inside a \<open>reasoning\<close> object.
\<close>

theorem setReasoningEffortByAlias_touches_only_model_and_effort:
  "gjsonGet (Some (JObject (setReasoningEffortByAlias payload baseModel effort))) ''model''
     = Some (JString baseModel)
   \<and> (ToLower (TrimSpace effort) \<noteq> [] \<longrightarrow>
        gjsonGet (gjsonGet (Some (JObject (setReasoningEffortByAlias payload baseModel effort)))
                    ''reasoning'') ''effort''
          = Some (JString (ToLower (TrimSpace effort))))
   \<and> (ToLower (TrimSpace effort) = [] \<longrightarrow>
        gjsonGet (Some (JObject (setReasoningEffortByAlias payload baseModel effort))) ''reasoning''
          = gjsonGet (Some (JObject payload)) ''reasoning'')
   \<and> filter (\<lambda>kv. fst kv \<notin> {''model'', ''reasoning''})
        (setReasoningEffortByAlias payload baseModel effort)
       = filter (\<lambda>kv. fst kv \<notin> {''model'', ''reasoning''}) payload
   \<and> (map_of payload ''reasoning'' = Some (JObject r) \<longrightarrow>
        (\<exists>r'. map_of (setReasoningEffortByAlias payload baseModel effort) ''reasoning''
                 = Some (JObject r')
             \<and> filter (\<lambda>kv. fst kv \<notin> {''effort''}) r' = filter (\<lambda>kv. fst kv \<notin> {''effort''}) r))"
proof (intro conjI impI)
  show "gjsonGet (Some (JObject (setReasoningEffortByAlias payload baseModel effort))) ''model''
          = Some (JString baseModel)"
    by (simp add: gjsonGet_members setReasoningEffortByAlias_def Let_def map_of_setMember)
next
  assume "ToLower (TrimSpace effort) \<noteq> []"
  then show "gjsonGet (gjsonGet (Some (JObject (setReasoningEffortByAlias payload baseModel effort)))
                    ''reasoning'') ''effort''
          = Some (JString (ToLower (TrimSpace effort)))"
    by (simp add: gjsonGet_members setReasoningEffortByAlias_def Let_def map_of_setMember)
next
  assume "ToLower (TrimSpace effort) = []"
  then show "gjsonGet (Some (JObject (setReasoningEffortByAlias payload baseModel effort))) ''reasoning''
          = gjsonGet (Some (JObject payload)) ''reasoning''"
    by (simp add: gjsonGet_members setReasoningEffortByAlias_def Let_def map_of_setMember)
next
  show "filter (\<lambda>kv. fst kv \<notin> {''model'', ''reasoning''})
        (setReasoningEffortByAlias payload baseModel effort)
       = filter (\<lambda>kv. fst kv \<notin> {''model'', ''reasoning''}) payload"
    by (simp add: setReasoningEffortByAlias_def Let_def filter_setMember)
next
  assume r: "map_of payload ''reasoning'' = Some (JObject r)"
  show "\<exists>r'. map_of (setReasoningEffortByAlias payload baseModel effort) ''reasoning''
                 = Some (JObject r')
             \<and> filter (\<lambda>kv. fst kv \<notin> {''effort''}) r' = filter (\<lambda>kv. fst kv \<notin> {''effort''}) r"
  proof (cases "ToLower (TrimSpace effort) = []")
    case True
    then show ?thesis
      using r by (simp add: setReasoningEffortByAlias_def Let_def map_of_setMember)
  next
    case False
    then have "map_of (setReasoningEffortByAlias payload baseModel effort) ''reasoning''
                 = Some (JObject (setMember r ''effort'' (JString (ToLower (TrimSpace effort)))))"
      using r by (simp add: setReasoningEffortByAlias_def Let_def map_of_setMember)
    moreover have "filter (\<lambda>kv. fst kv \<notin> {''effort''})
                     (setMember r ''effort'' (JString (ToLower (TrimSpace effort))))
                   = filter (\<lambda>kv. fst kv \<notin> {''effort''}) r"
      by (simp add: filter_setMember)
    ultimately show ?thesis by blast
  qed
qed

text \<open>
  The theorem at two cases of the test: the empty object with the effort \<open>XHIGH\<close> gets
  \<open>reasoning.effort = xhigh\<close>; with the empty effort it gets no \<open>reasoning\<close>.
\<close>

theorem setReasoningEffortByAlias_touches_only_model_and_effort_witness:
  "gjsonGet (gjsonGet (Some (JObject (setReasoningEffortByAlias [] ''gpt-5.1-codex-max'' ''XHIGH'')))
               ''reasoning'') ''effort'' = Some (JString ''xhigh'')
   \<and> gjsonGet (Some (JObject (setReasoningEffortByAlias [] ''gpt-5'' []))) ''reasoning'' = None"
proof -
  note t = setReasoningEffortByAlias_touches_only_model_and_effort
  have a: "ToLower (TrimSpace ''XHIGH'') = ''xhigh''"
    by code_simp
  have b: "ToLower (TrimSpace []) = []"
    by code_simp
  from t [of "[]" "''gpt-5.1-codex-max''" "''XHIGH''"] a
  have "gjsonGet (gjsonGet (Some (JObject (setReasoningEffortByAlias [] ''gpt-5.1-codex-max'' ''XHIGH'')))
               ''reasoning'') ''effort'' = Some (JString ''xhigh'')"
    by simp
  moreover from t [of "[]" "''gpt-5''" "[]"] b
  have "gjsonGet (Some (JObject (setReasoningEffortByAlias [] ''gpt-5'' []))) ''reasoning'' = None"
    by (simp add: gjsonGet_members)
  ultimately show ?thesis by blast
qed

section \<open>Model catalogue: properties\<close>

lemma foldID_synthesizeEssentialModel [simp]:
  "foldID (synthesizeEssentialModel i now) = ToLower i"
  by (simp add: foldID_def synthesizeEssentialModel_def)

lemma essentialCopilotModels_distinct: "distinct (map ToLower essentialCopilotModels)"
  by (simp add: essentialCopilotModels_def)

lemma foldID_merge:
  "map foldID (mergeEssentialCopilotModels existing now)
     = map foldID existing @ map ToLower (missingEssentialModels existing)"
  by (simp add: mergeEssentialCopilotModels_def comp_def)

lemma missing_distinct: "distinct (map ToLower (missingEssentialModels existing))"
  unfolding missingEssentialModels_def
  using essentialCopilotModels_distinct by (rule distinct_map_filter)

lemma missing_not_existing:
  "set (map foldID existing) \<inter> set (map ToLower (missingEssentialModels existing)) = {}"
proof -
  have "x \<notin> set (map foldID existing)"
    if "x \<in> set (map ToLower (missingEssentialModels existing))" for x
    using that by (auto simp: missingEssentialModels_def hasModelID_def)
  then show ?thesis
    by blast
qed

lemma merge_has_essential:
  assumes "i \<in> set essentialCopilotModels"
  shows "hasModelID (mergeEssentialCopilotModels existing now) i"
proof (cases "hasModelID existing i")
  case True
  then show ?thesis
    by (simp add: hasModelID_def foldID_merge)
next
  case False
  with assms have "i \<in> set (missingEssentialModels existing)"
    by (simp add: missingEssentialModels_def)
  then have "ToLower i \<in> ToLower ` set (missingEssentialModels existing)"
    by (rule imageI)
  then show ?thesis
    by (simp add: hasModelID_def foldID_merge)
qed

lemma merge_idempotent:
  "mergeEssentialCopilotModels (mergeEssentialCopilotModels existing now) now'
     = mergeEssentialCopilotModels existing now"
proof -
  have "missingEssentialModels (mergeEssentialCopilotModels existing now) = []"
    by (simp add: missingEssentialModels_def filter_empty_conv merge_has_essential)
  then show ?thesis
    by (simp add: mergeEssentialCopilotModels_def [of "mergeEssentialCopilotModels existing now"])
qed

lemma merge_distinct:
  assumes "distinct (map foldID existing)"
  shows "distinct (map foldID (mergeEssentialCopilotModels existing now))"
  using assms missing_distinct [of existing] missing_not_existing [of existing]
  by (simp add: foldID_merge)

lemma append_nth_new:
  assumes d: "distinct ys" and disj: "set xs \<inter> set ys = {}"
    and i: "length xs \<le> i" "i < length (xs @ ys)" and j: "j < length (xs @ ys)" and ne: "i \<noteq> j"
  shows "(xs @ ys) ! i \<noteq> (xs @ ys) ! j"
proof -
  from i have ii: "(xs @ ys) ! i = ys ! (i - length xs)" "i - length xs < length ys"
    by (simp_all add: nth_append)
  then have iy: "(xs @ ys) ! i \<in> set ys"
    by simp
  show ?thesis
  proof (cases "j < length xs")
    case True
    then have "(xs @ ys) ! j \<in> set xs"
      by (simp add: nth_append)
    with iy disj show ?thesis
      by auto
  next
    case False
    with j have jj: "(xs @ ys) ! j = ys ! (j - length xs)" "j - length xs < length ys"
      by (simp_all add: nth_append)
    from False i ne have "i - length xs \<noteq> j - length xs"
      by arith
    with d ii(2) jj(2) have "ys ! (i - length xs) \<noteq> ys ! (j - length xs)"
      by (simp add: nth_eq_iff_index_eq)
    with ii(1) jj(1) show ?thesis
      by simp
  qed
qed

lemma merge_no_new_duplicate:
  assumes "length existing \<le> i" "i < length (mergeEssentialCopilotModels existing now)"
    and "j < length (mergeEssentialCopilotModels existing now)" and "i \<noteq> j"
  shows "foldID (mergeEssentialCopilotModels existing now ! i)
           \<noteq> foldID (mergeEssentialCopilotModels existing now ! j)"
proof -
  let ?r = "mergeEssentialCopilotModels existing now"
  let ?xs = "map foldID existing"
  let ?ys = "map ToLower (missingEssentialModels existing)"
  have "length (?xs @ ?ys) = length (map foldID ?r)"
    by (simp only: foldID_merge)
  then have len: "length (?xs @ ?ys) = length ?r"
    by simp
  have "(?xs @ ?ys) ! i \<noteq> (?xs @ ?ys) ! j"
    using missing_distinct missing_not_existing
  proof (rule append_nth_new)
    show "length ?xs \<le> i" using assms(1) by simp
    show "i < length (?xs @ ?ys)" using assms(2) len by simp
    show "j < length (?xs @ ?ys)" using assms(3) len by simp
    show "i \<noteq> j" by (fact assms(4))
  qed
  then have "map foldID ?r ! i \<noteq> map foldID ?r ! j"
    unfolding foldID_merge .
  with assms(2,3) show ?thesis
    by simp
qed

text \<open>
  Claim C9. For every list of existing models and every timestamp the result of
  \<open>mergeEssentialCopilotModels\<close> starts with the existing entries, unchanged and in their
  order. After them comes one synthesized entry for each essential model whose ID is not
  among the existing ones (compared without regard to case), with the markers of owner, type
  and object, \<open>Created = now\<close>, limits above zero and supported parameters that are not empty
  and contain \<open>tools\<close>. Merging again into the result, with any timestamp, appends nothing.
  The merge produces no duplicate: the ID of a synthesized entry is not equal, without
  regard to case, to the ID of any other entry of the result; so when no two existing entries
  have such equal IDs, no two entries of the result have.
\<close>

theorem mergeEssentialCopilotModels_appends_missing_once:
  "take (length existing) (mergeEssentialCopilotModels existing now) = existing
   \<and> map ID (drop (length existing) (mergeEssentialCopilotModels existing now))
       = filter (\<lambda>i. \<not> hasModelID existing i) essentialCopilotModels
   \<and> (\<forall>a \<in> set (drop (length existing) (mergeEssentialCopilotModels existing now)).
         OwnedBy a = ''copilot'' \<and> Type a = ''copilot'' \<and> Object a = ''model''
         \<and> Created a = now \<and> 0 < ContextLength a \<and> 0 < MaxCompletionTokens a
         \<and> SupportedParameters a \<noteq> [] \<and> ''tools'' \<in> set (SupportedParameters a))
   \<and> mergeEssentialCopilotModels (mergeEssentialCopilotModels existing now) now'
       = mergeEssentialCopilotModels existing now
   \<and> (\<forall>i j. length existing \<le> i \<and> i < length (mergeEssentialCopilotModels existing now)
             \<and> j < length (mergeEssentialCopilotModels existing now) \<and> i \<noteq> j \<longrightarrow>
           foldID (mergeEssentialCopilotModels existing now ! i)
             \<noteq> foldID (mergeEssentialCopilotModels existing now ! j))
   \<and> (distinct (map foldID existing) \<longrightarrow>
         distinct (map foldID (mergeEssentialCopilotModels existing now)))"
proof -
  have p1: "take (length existing) (mergeEssentialCopilotModels existing now) = existing"
    by (simp add: mergeEssentialCopilotModels_def)
  have p2: "map ID (drop (length existing) (mergeEssentialCopilotModels existing now))
       = filter (\<lambda>i. \<not> hasModelID existing i) essentialCopilotModels"
    by (simp add: mergeEssentialCopilotModels_def missingEssentialModels_def comp_def
          synthesizeEssentialModel_def)
  have p3: "\<forall>a \<in> set (drop (length existing) (mergeEssentialCopilotModels existing now)).
         OwnedBy a = ''copilot'' \<and> Type a = ''copilot'' \<and> Object a = ''model''
         \<and> Created a = now \<and> 0 < ContextLength a \<and> 0 < MaxCompletionTokens a
         \<and> SupportedParameters a \<noteq> [] \<and> ''tools'' \<in> set (SupportedParameters a)"
    by (auto simp: mergeEssentialCopilotModels_def synthesizeEssentialModel_def)
  have p4: "mergeEssentialCopilotModels (mergeEssentialCopilotModels existing now) now'
       = mergeEssentialCopilotModels existing now"
    by (rule merge_idempotent)
  have p5: "\<forall>i j. length existing \<le> i \<and> i < length (mergeEssentialCopilotModels existing now)
             \<and> j < length (mergeEssentialCopilotModels existing now) \<and> i \<noteq> j \<longrightarrow>
           foldID (mergeEssentialCopilotModels existing now ! i)
             \<noteq> foldID (mergeEssentialCopilotModels existing now ! j)"
    using merge_no_new_duplicate by blast
  have p6: "distinct (map foldID existing) \<longrightarrow>
         distinct (map foldID (mergeEssentialCopilotModels existing now))"
    by (blast intro: merge_distinct)
  show ?thesis
    by (intro conjI) (fact p1 p2 p3 p4 p5 p6)+
qed

text \<open>
  The theorem on the lists of the tests: after \<open>gpt-5\<close> and \<open>gpt-4o\<close> the entry
  \<open>gemini-3-flash-preview\<close> is appended, with the timestamp of the call; after an entry
  \<open>GEMINI-3-FLASH-PREVIEW\<close> no two IDs of the result are equal without regard to case.
\<close>

theorem mergeEssentialCopilotModels_appends_missing_once_witness:
  "map ID (mergeEssentialCopilotModels [catalogEntry ''gpt-5'', catalogEntry ''gpt-4o''] 1700000000)
     = [''gpt-5'', ''gpt-4o'', ''gemini-3-flash-preview'']
   \<and> map Created (drop 2 (mergeEssentialCopilotModels
                           [catalogEntry ''gpt-5'', catalogEntry ''gpt-4o''] 1700000000))
       = [1700000000]
   \<and> distinct (map foldID (mergeEssentialCopilotModels
                             [catalogEntry ''GEMINI-3-FLASH-PREVIEW''] 1700000000))"
proof -
  note t = mergeEssentialCopilotModels_appends_missing_once
  let ?ex = "[catalogEntry ''gpt-5'', catalogEntry ''gpt-4o'']"
  let ?r = "mergeEssentialCopilotModels ?ex 1700000000"
  have missing: "filter (\<lambda>i. \<not> hasModelID ?ex i) essentialCopilotModels
                   = [''gemini-3-flash-preview'']"
    by code_simp
  have d: "distinct (map foldID [catalogEntry ''GEMINI-3-FLASH-PREVIEW''])"
    by simp
  from t [of ?ex 1700000000] have tk: "take (length ?ex) ?r = ?ex"
    and dr: "map ID (drop (length ?ex) ?r) = [''gemini-3-flash-preview'']"
    and cr: "\<forall>a \<in> set (drop (length ?ex) ?r). Created a = 1700000000"
    using missing by simp_all
  have "map ID ?r = map ID (take (length ?ex) ?r) @ map ID (drop (length ?ex) ?r)"
    by (metis append_take_drop_id map_append)
  then have "map ID ?r = [''gpt-5'', ''gpt-4o'', ''gemini-3-flash-preview'']"
    by (simp only: tk dr) (simp add: catalogEntry_def)
  moreover have "map Created (drop 2 ?r) = [1700000000]"
  proof -
    define appended where "appended = drop (length ?ex) ?r"
    from dr have "map ID appended = [''gemini-3-flash-preview'']"
      unfolding appended_def .
    then obtain a where a: "appended = [a]"
      by (cases appended) auto
    from cr have "\<forall>a \<in> set appended. Created a = 1700000000"
      unfolding appended_def .
    with a have "map Created appended = [1700000000]"
      by simp
    moreover have "drop 2 ?r = appended"
      unfolding appended_def by (simp add: numeral_2_eq_2)
    ultimately show ?thesis by simp
  qed
  moreover from t [of "[catalogEntry ''GEMINI-3-FLASH-PREVIEW'']" 1700000000] d
  have "distinct (map foldID (mergeEssentialCopilotModels
                             [catalogEntry ''GEMINI-3-FLASH-PREVIEW''] 1700000000))"
    by blast
  ultimately show ?thesis by blast
qed

end
